theory Spec2Isabelle
  imports Main "HOL-Library.Sublist"
begin

section \<open>Python strings\<close>

text \<open>
  A Python \<^verbatim>\<open>str\<close> is a sequence of Unicode code points, so it is modelled as a list
  of natural numbers (\<open>char\<close> is a byte and cannot hold the dashes of the list pattern).
  \<open>U\<close> turns an ASCII literal into that representation.
\<close>

type_synonym pystr = "nat list"

definition U :: "string \<Rightarrow> pystr" where
  "U s = map of_char s"

text \<open>
  The Unicode tables behind \<^verbatim>\<open>str.lower\<close> and \<^verbatim>\<open>str.isalnum\<close> are not part of the
  repository. On ASCII text both are fixed below; for everything else they are parameters.
\<close>

record unicode_db =
  uc_lower :: "pystr \<Rightarrow> pystr"
  uc_isalnum :: "nat \<Rightarrow> bool"

definition ascii_lower :: "nat \<Rightarrow> nat" where
  "ascii_lower c = (if 65 \<le> c \<and> c \<le> 90 then c + 32 else c)"

definition py_lower :: "unicode_db \<Rightarrow> pystr \<Rightarrow> pystr" where
  "py_lower db s = (if list_all (\<lambda>c. c < 128) s then map ascii_lower s else uc_lower db s)"

text \<open>The operator \<^verbatim>\<open>needle in haystack\<close> on strings: a contiguous occurrence.\<close>

fun py_in :: "pystr \<Rightarrow> pystr \<Rightarrow> bool" where
  "py_in n [] = (n = [])"
| "py_in n (c # cs) = (prefix n (c # cs) \<or> py_in n cs)"

text \<open>A table that treats every non-ASCII character as caseless and non-alphanumeric.\<close>

definition ascii_db :: unicode_db where
  "ascii_db = \<lparr>uc_lower = (\<lambda>s. map ascii_lower s), uc_isalnum = (\<lambda>c. False)\<rparr>"

section \<open>Strategy selector and content validators\<close>

text \<open>
  \<^verbatim>\<open>JS_REQUIRED_PATTERNS\<close> holds the regular expressions \<^verbatim>\<open>claude\.ai/share/\<close>,
  \<^verbatim>\<open>chatgpt\.com/share/\<close> and \<^verbatim>\<open>chat\.openai\.com/share/\<close>. Their only metacharacter, the
  dot, is escaped, so each denotes one literal text and \<^verbatim>\<open>re.search\<close> is a substring test.
\<close>

definition JS_REQUIRED_PATTERNS :: "pystr list" where
  "JS_REQUIRED_PATTERNS =
     [U ''claude.ai/share/'', U ''chatgpt.com/share/'', U ''chat.openai.com/share/'']"

definition LOGIN_PAGE_INDICATORS :: "pystr list" where
  "LOGIN_PAGE_INDICATORS =
     [U ''Continue with Google'', U ''Continue with email'', U ''Log in'', U ''Sign up'',
      U ''Create an account'']"

definition CLOUDFLARE_INDICATORS :: "pystr list" where
  "CLOUDFLARE_INDICATORS =
     [U ''Just a moment...'', U ''Verify you are human'', U ''checking your browser'',
      U ''Enable JavaScript and cookies'', U ''Ray ID:'', U ''cloudflare'']"

text \<open>The \<^verbatim>\<open>for\<close> loop with an early \<^verbatim>\<open>return True\<close>.\<close>

fun search_any :: "pystr list \<Rightarrow> pystr \<Rightarrow> bool" where
  "search_any [] text = False"
| "search_any (p # ps) text = (if py_in p text then True else search_any ps text)"

definition needs_js_rendering :: "pystr \<Rightarrow> bool" where
  "needs_js_rendering url = search_any JS_REQUIRED_PATTERNS url"

definition is_login_page :: "pystr \<Rightarrow> bool" where
  "is_login_page content = search_any LOGIN_PAGE_INDICATORS content"

definition is_cloudflare_challenge :: "unicode_db \<Rightarrow> pystr \<Rightarrow> bool" where
  "is_cloudflare_challenge db content =
     (let content_lower = py_lower db content;
          matches = length (filter (\<lambda>indicator. py_in (py_lower db indicator) content_lower)
                              CLOUDFLARE_INDICATORS)
      in matches \<ge> 2)"

section \<open>Whitespace\<close>

text \<open>
  \<^verbatim>\<open>str.strip()\<close> and the class \<^verbatim>\<open>\s\<close> of a \<^verbatim>\<open>str\<close> pattern use the same fixed set of
  whitespace code points: U+0009 to U+000D, U+001C to U+0020, U+0085, U+00A0, U+1680,
  U+2000 to U+200A, U+2028, U+2029, U+202F, U+205F and U+3000.
\<close>

definition is_space :: "nat \<Rightarrow> bool" where
  "is_space c = ((9 \<le> c \<and> c \<le> 13) \<or> (28 \<le> c \<and> c \<le> 32) \<or> c = 133 \<or> c = 160 \<or> c = 5760
                 \<or> (8192 \<le> c \<and> c \<le> 8202) \<or> c = 8232 \<or> c = 8233 \<or> c = 8239 \<or> c = 8287
                 \<or> c = 12288)"

definition py_strip :: "pystr \<Rightarrow> pystr" where
  "py_strip s = rev (dropWhile is_space (rev (dropWhile is_space s)))"

definition NL :: nat where
  "NL = 10"

section \<open>Fetch outcomes and the outside world\<close>

record fetch_outcome =
  success :: bool
  title :: pystr
  content :: pystr
  error :: "pystr option"

datatype py_error =
  JSONDecodeError | RecursionError | AttributeError | TypeError | ValueError pystr | OSError

text \<open>
  What \<^verbatim>\<open>urllib.request.urlopen\<close> followed by \<^verbatim>\<open>read().decode\<close> does for one request: the
  decoded body, an \<^verbatim>\<open>HTTPError\<close> (its code and reason as \<^verbatim>\<open>str\<close> renders them), a
  \<^verbatim>\<open>URLError\<close> (its reason rendered), or any other exception (its \<^verbatim>\<open>str\<close>).
\<close>

datatype http_result =
  Body pystr
| HTTPError pystr pystr
| URLError pystr
| OtherException pystr

text \<open>
  What the headless browser does for one URL: the import fails, the session raises (the
  \<^verbatim>\<open>str\<close> of the exception), or navigation and extraction yield a content and a title.
\<close>

datatype render_result =
  NotInstalled
| RenderException pystr
| Rendered pystr pystr

text \<open>
  The collaborators of the fetchers. \<open>urlparse_netloc\<close> is \<^verbatim>\<open>urlparse(url).netloc\<close> of the
  standard library, which raises \<^verbatim>\<open>ValueError\<close> on some malformed URLs (\<open>Inl\<close> carries the
  message).
\<close>

record world =
  urlopen :: "pystr \<Rightarrow> http_result"
  render :: "pystr \<Rightarrow> render_result"
  urlparse_netloc :: "pystr \<Rightarrow> pystr + pystr"

definition JINA_READER_PREFIX :: pystr where
  "JINA_READER_PREFIX = U ''https://r.jina.ai/''"

definition failure :: "pystr \<Rightarrow> fetch_outcome" where
  "failure msg = \<lparr>success = False, title = [], content = [], error = Some msg\<rparr>"

section \<open>The title heading\<close>

text \<open>
  \<^verbatim>\<open>re.search(r"^#\s+(.+)$", content, re.MULTILINE)\<close>. At a line start the pattern needs
  \<^verbatim>\<open>#\<close> and a run of whitespace, which may span newlines; the group then takes the rest of
  the line. When the whitespace run reaches the end of the text the matcher backtracks: the
  group gets the last character of the run that is not a newline, if one exists beyond the
  first character of the run.
\<close>

definition heading_at :: "pystr \<Rightarrow> pystr option" where
  "heading_at s =
     (case s of
        [] \<Rightarrow> None
      | c # r \<Rightarrow>
          if c \<noteq> 35 then None
          else let w = takeWhile is_space r; rest = dropWhile is_space r in
            if w = [] then None
            else if rest \<noteq> [] then Some (takeWhile (\<lambda>x. x \<noteq> NL) rest)
            else (case filter (\<lambda>x. x \<noteq> NL) (tl w) of
                    [] \<Rightarrow> None
                  | x # xs \<Rightarrow> Some [last (x # xs)]))"

fun title_search :: "bool \<Rightarrow> pystr \<Rightarrow> pystr option" where
  "title_search bol [] = None"
| "title_search bol (c # r) =
     (case (if bol then heading_at (c # r) else None) of
        Some g \<Rightarrow> Some g
      | None \<Rightarrow> title_search (c = NL) r)"

section \<open>Fetchers and orchestrator\<close>

definition fetch_via_jina :: "world \<Rightarrow> pystr \<Rightarrow> fetch_outcome" where
  "fetch_via_jina w url =
     (case urlopen w (JINA_READER_PREFIX @ url) of
        Body body \<Rightarrow>
          if is_login_page body
          then failure (U ''Got login page instead of content (JS rendering required)'')
          else (case title_search True body of
                  Some g \<Rightarrow>
                    \<lparr>success = True, title = py_strip g, content = body, error = None\<rparr>
                | None \<Rightarrow>
                    (case urlparse_netloc w url of
                       Inr host \<Rightarrow>
                         \<lparr>success = True, title = host, content = body, error = None\<rparr>
                     | Inl msg \<Rightarrow> failure msg))
      | HTTPError code reason \<Rightarrow> failure (U ''HTTP '' @ code @ U '': '' @ reason)
      | URLError reason \<Rightarrow> failure (U ''URL Error: '' @ reason)
      | OtherException msg \<Rightarrow> failure msg)"

definition fetch_via_playwright :: "unicode_db \<Rightarrow> world \<Rightarrow> pystr \<Rightarrow> fetch_outcome" where
  "fetch_via_playwright db w url =
     (case render w url of
        NotInstalled \<Rightarrow>
          failure (U ''Playwright not installed. Run: pip install playwright && playwright install chromium'')
      | RenderException msg \<Rightarrow> failure (U ''Playwright error: '' @ msg)
      | Rendered body ttl \<Rightarrow>
          if body = [] \<or> length (py_strip body) < 100
          then failure (U ''Failed to extract meaningful content'')
          else if is_cloudflare_challenge db body \<or> ttl = U ''Just a moment...''
          then failure (U ''Blocked by Cloudflare challenge (bot detection)'')
          else \<lparr>success = True, title = ttl, content = body, error = None\<rparr>)"

text \<open>
  \<open>fetch_url\<close> returns the outcome together with the backends it called, in order.
  \<^verbatim>\<open>result.get("error", "")\<close> is the stored value, so an outcome without an error text would
  make \<^verbatim>\<open>.lower()\<close> raise \<^verbatim>\<open>AttributeError\<close>.
\<close>

datatype backend = Jina | Playwright

definition fetch_url ::
  "unicode_db \<Rightarrow> world \<Rightarrow> pystr \<Rightarrow> py_error + (fetch_outcome \<times> backend list)" where
  "fetch_url db w url =
     (if needs_js_rendering url then Inr (fetch_via_playwright db w url, [Playwright])
      else let result = fetch_via_jina w url in
        if success result then Inr (result, [Jina])
        else (case error result of
                None \<Rightarrow> Inl AttributeError
              | Some e \<Rightarrow>
                  if py_in (U ''login page'') (py_lower db e) \<or> py_in (U ''JS rendering'') e
                  then Inr (fetch_via_playwright db w url, [Jina, Playwright])
                  else Inr (result, [Jina])))"

section \<open>Sample worlds\<close>

definition long_page :: pystr where
  "long_page = replicate 100 120"

text \<open>The proxy answers with a login wall; the browser renders a real page.\<close>

definition login_wall_world :: world where
  "login_wall_world =
     \<lparr>urlopen = (\<lambda>u. Body (U ''Continue with Google'')),
      render = (\<lambda>u. Rendered long_page (U ''Page'')),
      urlparse_netloc = (\<lambda>u. Inr (U ''example.com''))\<rparr>"

text \<open>The proxy answers 403 with the reason phrase \<^verbatim>\<open>Login Page Required\<close>.\<close>

definition forbidden_world :: world where
  "forbidden_world =
     \<lparr>urlopen = (\<lambda>u. HTTPError (U ''403'') (U ''Login Page Required'')),
      render = (\<lambda>u. Rendered long_page (U ''Page'')),
      urlparse_netloc = (\<lambda>u. Inr (U ''example.com''))\<rparr>"

text \<open>The proxy answers 200 with an empty body.\<close>

definition empty_body_world :: world where
  "empty_body_world =
     \<lparr>urlopen = (\<lambda>u. Body []),
      render = (\<lambda>u. NotInstalled),
      urlparse_netloc = (\<lambda>u. Inr (U ''example.com''))\<rparr>"

text \<open>The proxy answers 200 with a short article.\<close>

definition article_world :: world where
  "article_world =
     \<lparr>urlopen = (\<lambda>u. Body (U ''# Hello'')),
      render = (\<lambda>u. NotInstalled),
      urlparse_netloc = (\<lambda>u. Inr (U ''example.com''))\<rparr>"

text \<open>The proxy is unreachable.\<close>

definition offline_world :: world where
  "offline_world =
     \<lparr>urlopen = (\<lambda>u. URLError (U ''timed out'')),
      render = (\<lambda>u. NotInstalled),
      urlparse_netloc = (\<lambda>u. Inr (U ''example.com''))\<rparr>"

text \<open>The proxy request raises an exception that has no message.\<close>

definition bare_exception_world :: world where
  "bare_exception_world =
     \<lparr>urlopen = (\<lambda>u. OtherException []),
      render = (\<lambda>u. Rendered long_page (U ''Page'')),
      urlparse_netloc = (\<lambda>u. Inr (U ''example.com''))\<rparr>"

section \<open>Input parser\<close>

text \<open>
  The values \<^verbatim>\<open>json.loads\<close> can build. A float is only ever tested for truth by the code,
  so it carries whether it is non-zero. An object is the Python dict as an association list
  (distinct keys, in insertion order).
\<close>

datatype json =
  JNull
| JBool bool
| JInt int
| JFloat bool
| JStr pystr
| JArr "json list"
| JObj "(pystr \<times> json) list"

text \<open>A queue item is a dict with the keys \<^verbatim>\<open>url\<close> and \<^verbatim>\<open>note\<close>.\<close>

record queue_item =
  item_url :: json
  item_note :: json

text \<open>\<^verbatim>\<open>d.get(key, "")\<close> on a dict.\<close>

definition dict_get :: "(pystr \<times> json) list \<Rightarrow> pystr \<Rightarrow> json" where
  "dict_get d k = (case map_of d k of Some v \<Rightarrow> v | None \<Rightarrow> JStr [])"

text \<open>\<^verbatim>\<open>item.get\<close> exists on a dict only; on every other value it raises.\<close>

definition item_of_json :: "json \<Rightarrow> py_error + queue_item" where
  "item_of_json v =
     (case v of
        JObj d \<Rightarrow> Inr \<lparr>item_url = dict_get d (U ''url''), item_note = dict_get d (U ''note'')\<rparr>
      | _ \<Rightarrow> Inl AttributeError)"

text \<open>The list comprehension over the parsed array stops at the first element that raises.\<close>

fun items_of_array :: "json list \<Rightarrow> py_error + queue_item list" where
  "items_of_array [] = Inr []"
| "items_of_array (v # vs) =
     (case item_of_json v of
        Inl e \<Rightarrow> Inl e
      | Inr i \<Rightarrow> (case items_of_array vs of Inl e \<Rightarrow> Inl e | Inr is \<Rightarrow> Inr (i # is)))"

text \<open>
  The \<^verbatim>\<open>try\<close> block. \<open>loads\<close> is \<^verbatim>\<open>json.loads\<close>: the value it builds, or the exception it
  raises. The block catches \<^verbatim>\<open>JSONDecodeError\<close> only; every other exception of the decoder
  (\<^verbatim>\<open>RecursionError\<close> on deep nesting, a plain \<^verbatim>\<open>ValueError\<close> on an over-long number) leaves
  \<open>parse_input_file\<close>. The result \<open>None\<close> means that control leaves the block without a
  \<^verbatim>\<open>return\<close> and goes on to the other formats.
\<close>

definition json_form ::
  "(pystr \<Rightarrow> py_error + json) \<Rightarrow> pystr \<Rightarrow> (py_error + queue_item list) option" where
  "json_form loads text =
     (if prefix (U ''{'') text \<or> prefix (U ''['') text
      then (case loads text of
              Inl e \<Rightarrow> (if e = JSONDecodeError then None else Some (Inl e))
            | Inr (JObj d) \<Rightarrow>
                Some (Inr [\<lparr>item_url = dict_get d (U ''url''),
                            item_note = dict_get d (U ''note'')\<rparr>])
            | Inr (JArr vs) \<Rightarrow> Some (items_of_array vs)
            | Inr _ \<Rightarrow> None)
      else None)"

text \<open>\<^verbatim>\<open>s.split(sep)\<close> for a separator of one character.\<close>

fun split_on :: "nat \<Rightarrow> pystr \<Rightarrow> pystr list" where
  "split_on sep [] = [[]]"
| "split_on sep (c # cs) =
     (if c = sep then [] # split_on sep cs
      else (case split_on sep cs of
              [] \<Rightarrow> [[c]]
            | l # ls \<Rightarrow> (c # l) # ls))"

text \<open>
  \<^verbatim>\<open>content.split("\n\n", 1)\<close>: the text before the first blank line and, when there is a
  blank line, the text after it.
\<close>

fun split_blank :: "pystr \<Rightarrow> pystr \<times> pystr option" where
  "split_blank [] = ([], None)"
| "split_blank (c # cs) =
     (if c = NL \<and> prefix [NL] cs then ([], Some (tl cs))
      else (case split_blank cs of (a, b) \<Rightarrow> (c # a, b)))"

text \<open>The prefix \<^verbatim>\<open>https?://\<close>: the scheme matched and the text after it.\<close>

definition strip_scheme :: "pystr \<Rightarrow> (pystr \<times> pystr) option" where
  "strip_scheme s =
     (if prefix (U ''https://'') s then Some (U ''https://'', drop 8 s)
      else if prefix (U ''http://'') s then Some (U ''http://'', drop 7 s)
      else None)"

text \<open>
  \<^verbatim>\<open>list_pattern.match(line)\<close> for
  \<^verbatim>\<open>^[-*]\s+(https?://\S+)(?:\s+[---]\s+(.*))?$\<close>, where the class of the optional part holds
  the em dash U+2014, the en dash U+2013 and the hyphen. The line comes from a split at
  newlines, so it has none. Every quantified part can only take its longest run: a bullet,
  whitespace, the scheme and the run of non-space characters; then either the end of the
  line, or whitespace, a dash, whitespace and the rest of the line as the note. The result is
  the pair of group 1 and of \<^verbatim>\<open>group(2) or ""\<close>.
\<close>

definition list_match :: "pystr \<Rightarrow> (pystr \<times> pystr) option" where
  "list_match line =
     (case line of
        [] \<Rightarrow> None
      | c # r \<Rightarrow>
          if c \<noteq> 45 \<and> c \<noteq> 42 then None
          else if takeWhile is_space r = [] then None
          else (case strip_scheme (dropWhile is_space r) of
                  None \<Rightarrow> None
                | Some (scheme, r2) \<Rightarrow>
                    let u = takeWhile (\<lambda>x. \<not> is_space x) r2;
                        r3 = dropWhile (\<lambda>x. \<not> is_space x) r2
                    in if u = [] then None
                       else if r3 = [] then Some (scheme @ u, [])
                       else (case dropWhile is_space r3 of
                               [] \<Rightarrow> None
                             | d # r5 \<Rightarrow>
                                 if d \<noteq> 8212 \<and> d \<noteq> 8211 \<and> d \<noteq> 45 then None
                                 else if takeWhile is_space r5 = [] then None
                                 else Some (scheme @ u, dropWhile is_space r5))))"

text \<open>
  One round of the loop over the lines: the item that a line contributes when
  \<^verbatim>\<open>list_pattern.match(line.strip())\<close> succeeds.
\<close>

definition line_item :: "pystr \<Rightarrow> queue_item option" where
  "line_item line =
     (case list_match (py_strip line) of
        Some (u, n) \<Rightarrow> Some \<lparr>item_url = JStr u, item_note = JStr n\<rparr>
      | None \<Rightarrow> None)"

fun collect_list_items :: "pystr list \<Rightarrow> queue_item list \<Rightarrow> queue_item list" where
  "collect_list_items [] list_items = list_items"
| "collect_list_items (line # lines) list_items =
     (case line_item line of
        Some i \<Rightarrow> collect_list_items lines (list_items @ [i])
      | None \<Rightarrow> collect_list_items lines list_items)"

text \<open>\<^verbatim>\<open>url_pattern.match(first_line)\<close> for \<^verbatim>\<open>^https?://\S+$\<close> on a line without newline.\<close>

definition url_match :: "pystr \<Rightarrow> bool" where
  "url_match s =
     (case strip_scheme s of
        None \<Rightarrow> False
      | Some (scheme, r) \<Rightarrow> r \<noteq> [] \<and> list_all (\<lambda>x. \<not> is_space x) r)"

text \<open>\<^verbatim>\<open>re.search(r"https?://\S+", content)\<close>: the leftmost match, as long as it can be.\<close>

fun url_search :: "pystr \<Rightarrow> pystr option" where
  "url_search [] = None"
| "url_search (c # cs) =
     (case strip_scheme (c # cs) of
        None \<Rightarrow> url_search cs
      | Some (scheme, r) \<Rightarrow>
          if takeWhile (\<lambda>x. \<not> is_space x) r = [] then url_search cs
          else Some (scheme @ takeWhile (\<lambda>x. \<not> is_space x) r))"

definition parse_input_file ::
  "(pystr \<Rightarrow> py_error + json) \<Rightarrow> pystr \<Rightarrow> py_error + queue_item list" where
  "parse_input_file loads content0 =
     (let content = py_strip content0 in
      if content = [] then Inr []
      else (case json_form loads content of
              Some res \<Rightarrow> res
            | None \<Rightarrow>
                let list_items = collect_list_items (split_on NL content) [] in
                if list_items \<noteq> [] then Inr list_items
                else (case split_blank content of
                        (part0, rest) \<Rightarrow>
                          let first_part = py_strip part0;
                              first_line = py_strip (hd (split_on NL first_part))
                          in if url_match first_line
                             then Inr [\<lparr>item_url = JStr first_line,
                                        item_note = JStr (case rest of Some p \<Rightarrow> py_strip p
                                                                      | None \<Rightarrow> [])\<rparr>]
                             else (case url_search content of
                                     Some u \<Rightarrow> Inr [\<lparr>item_url = JStr u, item_note = JStr []\<rparr>]
                                   | None \<Rightarrow> Inr []))))"

text \<open>The two-line list of the specification, with its em dash.\<close>

definition two_bullets :: pystr where
  "two_bullets = U ''- https://example.com/a '' @ [8212] @ U '' first'' @ [NL]
                 @ U ''- https://example.com/b''"

text \<open>A first line that is a URL, followed by a bullet line.\<close>

definition url_then_bullet :: pystr where
  "url_then_bullet = U ''https://example.com/first'' @ [NL] @ U ''* http://example.com/b - two''"

text \<open>The JSON text of an array that holds one URL as a string: \<^verbatim>\<open>["https://example.com/a"]\<close>.\<close>

definition url_array_text :: pystr where
  "url_array_text = U ''['' @ [34] @ U ''https://example.com/a'' @ [34] @ U '']''"

text \<open>
  A thousand opening brackets, then a bullet line. \<^verbatim>\<open>json.loads\<close> gives up on the nesting with
  \<^verbatim>\<open>RecursionError\<close>.
\<close>

definition deep_text :: pystr where
  "deep_text = U ''['' @ replicate 999 91 @ [NL] @ U ''- https://example.com/a''"

text \<open>
  A loader that knows these two texts and rejects everything else with \<^verbatim>\<open>JSONDecodeError\<close>.
\<close>

definition sample_loads :: "pystr \<Rightarrow> py_error + json" where
  "sample_loads text =
     (if text = url_array_text then Inr (JArr [JStr (U ''https://example.com/a'')])
      else if text = deep_text then Inl RecursionError
      else Inl JSONDecodeError)"

section \<open>Output writer\<close>

text \<open>
  The class \<^verbatim>\<open>\w\<close> of a \<^verbatim>\<open>str\<close> pattern: the alphanumeric characters and the underscore.
\<close>

definition is_word :: "unicode_db \<Rightarrow> nat \<Rightarrow> bool" where
  "is_word db c =
     (if c < 128
      then (48 \<le> c \<and> c \<le> 57) \<or> (65 \<le> c \<and> c \<le> 90) \<or> (97 \<le> c \<and> c \<le> 122) \<or> c = 95
      else uc_isalnum db c)"

text \<open>A character of the class \<^verbatim>\<open>[-\s]\<close>.\<close>

definition is_sep :: "nat \<Rightarrow> bool" where
  "is_sep c = (c = 45 \<or> is_space c)"

text \<open>\<^verbatim>\<open>re.sub(r"[-\s]+", "-", slug)\<close>: every longest run of separators becomes one hyphen.\<close>

function collapse :: "pystr \<Rightarrow> pystr" where
  "collapse [] = []"
| "collapse (c # cs) =
     (if is_sep c then 45 # collapse (dropWhile is_sep cs) else c # collapse cs)"
  by pat_completeness auto
termination
  by (relation "measure length") (auto simp: length_dropWhile_le less_Suc_eq_le)

text \<open>\<^verbatim>\<open>s.strip("-")\<close>.\<close>

definition strip_hyphens :: "pystr \<Rightarrow> pystr" where
  "strip_hyphens s = rev (dropWhile (\<lambda>c. c = 45) (rev (dropWhile (\<lambda>c. c = 45) s)))"

definition slugify :: "unicode_db \<Rightarrow> pystr \<Rightarrow> pystr" where
  "slugify db text =
     (let slug = filter (\<lambda>c. is_word db c \<or> is_space c \<or> c = 45) (py_lower db text);
          slug = strip_hyphens (collapse slug)
      in take 50 slug)"

text \<open>
  A timestamp is an instant in microseconds since the epoch. The two renderings the writer
  uses, \<^verbatim>\<open>strftime("%Y-%m-%dT%H%M%S")\<close> and \<^verbatim>\<open>isoformat()\<close>, belong to the standard
  library and are parameters.
\<close>

record datetime_fmt =
  strftime_compact :: "int \<Rightarrow> pystr"
  isoformat :: "int \<Rightarrow> pystr"

text \<open>\<^verbatim>\<open>note.replace('"', '\\"')\<close>: a backslash in front of every double quote.\<close>

definition escape_quotes :: "pystr \<Rightarrow> pystr" where
  "escape_quotes note = concat (map (\<lambda>c. if c = 34 then [92, 34] else [c]) note)"

definition frontmatter :: "datetime_fmt \<Rightarrow> pystr \<Rightarrow> pystr \<Rightarrow> pystr \<Rightarrow> int \<Rightarrow> pystr" where
  "frontmatter fmt url ttl note timestamp =
     (let fm = U ''---'' @ [NL] @ U ''url: '' @ url @ [NL] @ U ''title: '' @ ttl @ [NL]
               @ U ''fetched_at: '' @ isoformat fmt timestamp @ [NL];
          fm = (if note \<noteq> []
                then fm @ U ''source_note: '' @ [34] @ escape_quotes note @ [34] @ [NL]
                else fm)
      in fm @ U ''---'' @ [NL, NL])"

text \<open>
  \<open>write_output\<close> returns the name of the file it creates in the output directory and the
  text it writes there. The host of the URL is asked for only when the title is empty;
  \<^verbatim>\<open>urlparse\<close> may raise then.
\<close>

definition write_output ::
  "unicode_db \<Rightarrow> datetime_fmt \<Rightarrow> (pystr \<Rightarrow> pystr + pystr) \<Rightarrow>
   pystr \<Rightarrow> pystr \<Rightarrow> pystr \<Rightarrow> pystr \<Rightarrow> int \<Rightarrow> py_error + (pystr \<times> pystr)" where
  "write_output db fmt netloc url ttl body note timestamp =
     (let ts_str = strftime_compact fmt timestamp in
      case (if ttl \<noteq> [] then Inr (slugify db ttl)
            else (case netloc url of Inl msg \<Rightarrow> Inl (ValueError msg)
                                   | Inr host \<Rightarrow> Inr (slugify db host))) of
        Inl e \<Rightarrow> Inl e
      | Inr title_slug \<Rightarrow>
          Inr (ts_str @ U ''-'' @ title_slug @ U ''.md'',
               frontmatter fmt url ttl note timestamp @ body))"

text \<open>
  A rendering of timestamps for examples: the whole seconds in unary (after a hyphen when
  negative), closed by a letter.
\<close>

definition unary_seconds :: "int \<Rightarrow> pystr" where
  "unary_seconds t =
     (if 0 \<le> t then replicate (nat (t div 1000000)) 49
      else 45 # replicate (nat (- (t div 1000000))) 49)"

definition unary_fmt :: datetime_fmt where
  "unary_fmt =
     \<lparr>strftime_compact = (\<lambda>t. unary_seconds t @ [84]),
      isoformat = (\<lambda>t. unary_seconds t @ [90])\<rparr>"

text \<open>A title of 51 characters: an underscore, 48 letters, a hyphen and a letter.\<close>

definition long_title :: pystr where
  "long_title = U ''_aaaaaaaaaaaaaaaaaaaaaaaaaaaaaaaaaaaaaaaaaaaaaaaa-b''"

text \<open>A \<^verbatim>\<open>urlparse\<close> that finds the same host in every URL.\<close>

definition sample_netloc :: "pystr \<Rightarrow> pystr + pystr" where
  "sample_netloc u = Inr (U ''Example.com'')"

section \<open>Queue runner\<close>

text \<open>Truth of a value, as \<^verbatim>\<open>if not url\<close> and \<^verbatim>\<open>if note\<close> test it.\<close>

definition truthy :: "json \<Rightarrow> bool" where
  "truthy v =
     (case v of
        JNull \<Rightarrow> False
      | JBool b \<Rightarrow> b
      | JInt i \<Rightarrow> i \<noteq> 0
      | JFloat nonzero \<Rightarrow> nonzero
      | JStr s \<Rightarrow> s \<noteq> []
      | JArr vs \<Rightarrow> vs \<noteq> []
      | JObj d \<Rightarrow> d \<noteq> [])"

text \<open>
  An entry of the queue directory: something that is not a file, a file that cannot be read
  as UTF-8 text, or a file with its text.
\<close>

datatype dir_entry = NotAFile | Unreadable | Readable pystr

text \<open>
  Everything outside the program during one run: the standard library, and the network and
  the clock, which may answer differently at every fetch. \<open>world_at k\<close> is the world that the
  fetch number \<open>k\<close> of the run meets, \<open>clock_at k\<close> what \<^verbatim>\<open>datetime.now\<close> returns when its result
  is written.
\<close>

record environment =
  env_db :: unicode_db
  env_fmt :: datetime_fmt
  env_loads :: "pystr \<Rightarrow> py_error + json"
  world_at :: "nat \<Rightarrow> world"
  clock_at :: "nat \<Rightarrow> int"

text \<open>
  The state of a run: the counters and the list of \<^verbatim>\<open>results\<close>, the queue directory, the
  calls of \<open>write_output\<close> so far (timestamp, file name, text written) and the number of
  fetches made.
\<close>

record run_state =
  n_success :: nat
  n_failed :: nat
  files_processed :: "pystr list"
  queue_dir :: "(pystr \<times> dir_entry) list"
  writes :: "(int \<times> pystr \<times> pystr) list"
  fetch_count :: nat

text \<open>
  \<^verbatim>\<open>timestamp = datetime.now(timezone.utc)\<close>, plus \<^verbatim>\<open>timedelta(seconds=i)\<close> when \<open>i > 0\<close>;
  \<open>k\<close> is the number of the fetch that came before.
\<close>

definition item_timestamp :: "environment \<Rightarrow> nat \<Rightarrow> nat \<Rightarrow> int" where
  "item_timestamp env i k =
     (let timestamp = clock_at env k
      in if i > 0 then timestamp + int i * 1000000 else timestamp)"

text \<open>
  The note as \<open>write_output\<close> uses it. The test \<^verbatim>\<open>if note\<close> is false for an empty string and
  for every other false value; a true value that is not a string has no \<^verbatim>\<open>replace\<close>, so
  \<^verbatim>\<open>AttributeError\<close> is raised while the metadata block is built, before the file is written.
\<close>

definition note_text :: "json \<Rightarrow> pystr" where
  "note_text v = (case v of JStr n \<Rightarrow> n | _ \<Rightarrow> [])"

definition note_raises :: "json \<Rightarrow> bool" where
  "note_raises v = (case v of JStr n \<Rightarrow> False | _ \<Rightarrow> truthy v)"

text \<open>The success branch: the call of \<open>write_output\<close> and the counter.\<close>

definition write_item ::
  "environment \<Rightarrow> nat \<Rightarrow> pystr \<Rightarrow> json \<Rightarrow> fetch_outcome \<Rightarrow> nat \<Rightarrow> run_state
   \<Rightarrow> py_error option \<times> run_state" where
  "write_item env i url note_v fetch_result k st =
     (let timestamp = item_timestamp env i k in
      case write_output (env_db env) (env_fmt env) (urlparse_netloc (world_at env k)) url
             (title fetch_result) (content fetch_result) (note_text note_v) timestamp of
        Inl e \<Rightarrow> (Some e, st)
      | Inr (filename, written_text) \<Rightarrow>
          if note_raises note_v then (Some AttributeError, st)
          else (None, st\<lparr>writes := writes st @ [(timestamp, filename, written_text)],
                         n_success := Suc (n_success st)\<rparr>))"

text \<open>The fetch of one URL and what follows from its outcome.\<close>

definition fetch_item ::
  "environment \<Rightarrow> nat \<Rightarrow> pystr \<Rightarrow> json \<Rightarrow> run_state \<Rightarrow> py_error option \<times> run_state" where
  "fetch_item env i url note_v st =
     (let k = fetch_count st; st1 = st\<lparr>fetch_count := Suc k\<rparr> in
      case fetch_url (env_db env) (world_at env k) url of
        Inl e \<Rightarrow> (Some e, st1)
      | Inr (fetch_result, calls) \<Rightarrow>
          if success fetch_result then write_item env i url note_v fetch_result k st1
          else (None, st1\<lparr>n_failed := Suc (n_failed st1)\<rparr>))"

text \<open>
  The body of the loop over \<^verbatim>\<open>enumerate(urls)\<close>. It returns the exception that leaves the
  body, if any, and the state reached. A false URL is skipped; a true URL that is not a
  string makes \<^verbatim>\<open>re.search\<close> raise \<^verbatim>\<open>TypeError\<close>.
\<close>

definition process_item ::
  "environment \<Rightarrow> nat \<Rightarrow> queue_item \<Rightarrow> run_state \<Rightarrow> py_error option \<times> run_state" where
  "process_item env i item st =
     (if \<not> truthy (item_url item) then (None, st)
      else (case item_url item of
              JStr url \<Rightarrow> fetch_item env i url (item_note item) st
            | _ \<Rightarrow> (Some TypeError, st)))"

text \<open>The loop over the items from index \<open>i\<close> on; an exception ends it.\<close>

fun process_items ::
  "environment \<Rightarrow> nat \<Rightarrow> queue_item list \<Rightarrow> run_state \<Rightarrow> py_error option \<times> run_state" where
  "process_items env i [] st = (None, st)"
| "process_items env i (item # items) st =
     (case process_item env i item st of
        (Some e, st1) \<Rightarrow> (Some e, st1)
      | (None, st1) \<Rightarrow> process_items env (Suc i) items st1)"

text \<open>
  One round of the loop over the queue files: the \<^verbatim>\<open>try\<close> block and its handler. The file is
  deleted and recorded only when the end of the block is reached.
\<close>

definition process_file ::
  "environment \<Rightarrow> pystr \<times> dir_entry \<Rightarrow> run_state \<Rightarrow> run_state" where
  "process_file env queue_file st =
     (case snd queue_file of
        Readable text \<Rightarrow>
          (case parse_input_file (env_loads env) text of
             Inl e \<Rightarrow> st\<lparr>n_failed := Suc (n_failed st)\<rparr>
           | Inr urls \<Rightarrow>
               if urls = [] then st\<lparr>n_failed := Suc (n_failed st)\<rparr>
               else (case process_items env 0 urls st of
                       (Some e, st1) \<Rightarrow> st1\<lparr>n_failed := Suc (n_failed st1)\<rparr>
                     | (None, st1) \<Rightarrow>
                         st1\<lparr>queue_dir := filter (\<lambda>f. fst f \<noteq> fst queue_file) (queue_dir st1),
                             files_processed := files_processed st1 @ [fst queue_file]\<rparr>))
      | _ \<Rightarrow> st\<lparr>n_failed := Suc (n_failed st)\<rparr>)"

definition initial_state :: "(pystr \<times> dir_entry) list \<Rightarrow> run_state" where
  "initial_state entries =
     \<lparr>n_success = 0, n_failed = 0, files_processed = [], queue_dir = entries, writes = [],
      fetch_count = 0\<rparr>"

definition queue_files :: "(pystr \<times> dir_entry) list \<Rightarrow> (pystr \<times> dir_entry) list" where
  "queue_files entries =
     filter (\<lambda>f. snd f \<noteq> NotAFile \<and> fst f \<noteq> U ''.gitkeep'') entries"

text \<open>
  \<open>process_queue\<close> on a queue directory (\<open>None\<close> when it does not exist): the final state and
  the exit status of the process.
\<close>

definition process_queue ::
  "environment \<Rightarrow> (pystr \<times> dir_entry) list option \<Rightarrow> run_state \<times> nat" where
  "process_queue env qdir =
     (case qdir of
        None \<Rightarrow> (initial_state [], 0)
      | Some entries \<Rightarrow>
          if queue_files entries = [] then (initial_state entries, 0)
          else let results = foldl (\<lambda>st f. process_file env f st) (initial_state entries)
                               (queue_files entries)
               in (results, if n_failed results > 0 then 1 else 0))"

section \<open>Sample runs\<close>

text \<open>
  Every fetch meets the proxy that answers with a short article titled \<^verbatim>\<open>Hello\<close>; the clock
  stands at 0 during the first two fetches and at one second afterwards.
\<close>

definition sample_env :: environment where
  "sample_env =
     \<lparr>env_db = ascii_db, env_fmt = unary_fmt, env_loads = sample_loads,
      world_at = (\<lambda>k. article_world),
      clock_at = (\<lambda>k. if k < 2 then 0 else 1000000)\<rparr>"

text \<open>A queue with a file of two bullet lines and a file with one URL.\<close>

definition two_file_queue :: "(pystr \<times> dir_entry) list" where
  "two_file_queue =
     [(U ''a.md'', Readable two_bullets), (U ''b.md'', Readable (U ''https://example.com/c''))]"

text \<open>A queue with a file without any URL and a file that cannot be read.\<close>

definition failing_queue :: "(pystr \<times> dir_entry) list" where
  "failing_queue = [(U ''empty.md'', Readable (U ''nothing here'')), (U ''bad.bin'', Unreadable)]"

text \<open>The items of the two bullet lines.\<close>

definition two_bullet_items :: "queue_item list" where
  "two_bullet_items =
     [\<lparr>item_url = JStr (U ''https://example.com/a''), item_note = JStr (U ''first'')\<rparr>,
      \<lparr>item_url = JStr (U ''https://example.com/b''), item_note = JStr []\<rparr>]"

text \<open>The item of the file that holds one URL.\<close>

definition one_url_items :: "queue_item list" where
  "one_url_items = [\<lparr>item_url = JStr (U ''https://example.com/c''), item_note = JStr []\<rparr>]"

text \<open>A queue that holds only the file with one URL.\<close>

definition one_file_queue :: "(pystr \<times> dir_entry) list" where
  "one_file_queue = [(U ''b.md'', Readable (U ''https://example.com/c''))]"

section \<open>Facts about substring search\<close>

lemma py_in_iff_sublist: "py_in n h = sublist n h"
  by (induction h) (auto simp: sublist_Cons_right)

lemma search_any_iff: "search_any ps text = (\<exists>p \<in> set ps. py_in p text)"
  by (induction ps) auto

lemma distinct_CLOUDFLARE_INDICATORS: "distinct CLOUDFLARE_INDICATORS"
  by (simp add: CLOUDFLARE_INDICATORS_def U_def)

lemma filter_two_distinct:
  assumes "a \<in> set xs" "b \<in> set xs" "a \<noteq> b" "P a" "P b"
  shows "2 \<le> length (filter P xs)"
proof -
  have "{a, b} \<subseteq> set (filter P xs)" using assms by simp
  then have "card {a, b} \<le> card (set (filter P xs))"
    by (intro card_mono) simp_all
  also have "\<dots> \<le> length (filter P xs)" by (rule card_length)
  finally show ?thesis using assms(3) by simp
qed

lemma filter_unique_distinct:
  assumes "distinct xs" "\<exists>!x. x \<in> set xs \<and> P x"
  shows "length (filter P xs) = 1"
proof -
  from assms(2) obtain a where a: "a \<in> set xs" "P a"
    and u: "\<forall>y. y \<in> set xs \<and> P y \<longrightarrow> y = a"
    by blast
  have "set (filter P xs) \<subseteq> {a}" using u by (simp add: subset_iff)
  moreover have "a \<in> set (filter P xs)" using a by simp
  ultimately have "set (filter P xs) = {a}" by blast
  moreover have "distinct (filter P xs)" using assms(1) by simp
  ultimately have "card {a} = length (filter P xs)"
    by (simp add: distinct_card [symmetric])
  then show ?thesis by simp
qed

section \<open>Claims on the validators and the selector\<close>

text \<open>
  C4. \<open>is_login_page\<close> is true for every text that contains at least one of the login-wall
  phrases, a single \<^verbatim>\<open>Sign up\<close> being enough. \<open>is_cloudflare_challenge\<close> is false for
  every text in which exactly one indicator occurs case-insensitively, and true as soon as
  two distinct indicators occur in the text.
\<close>

theorem validators_fire:
  "((\<exists>ind \<in> set LOGIN_PAGE_INDICATORS. py_in ind t1) \<longrightarrow> is_login_page t1)
   \<and> (py_in (U ''Sign up'') t2 \<longrightarrow> is_login_page t2)
   \<and> ((\<exists>!ind. ind \<in> set CLOUDFLARE_INDICATORS \<and> py_in (py_lower db ind) (py_lower db t3))
        \<longrightarrow> \<not> is_cloudflare_challenge db t3)
   \<and> (a \<in> set CLOUDFLARE_INDICATORS \<and> b \<in> set CLOUDFLARE_INDICATORS \<and> a \<noteq> b
        \<and> py_in (py_lower db a) (py_lower db t4) \<and> py_in (py_lower db b) (py_lower db t4)
        \<longrightarrow> is_cloudflare_challenge db t4)"
proof (intro conjI impI)
  assume "\<exists>ind \<in> set LOGIN_PAGE_INDICATORS. py_in ind t1"
  then show "is_login_page t1" by (simp add: is_login_page_def search_any_iff)
next
  assume "py_in (U ''Sign up'') t2"
  moreover have "U ''Sign up'' \<in> set LOGIN_PAGE_INDICATORS"
    by (simp add: LOGIN_PAGE_INDICATORS_def)
  ultimately show "is_login_page t2"
    unfolding is_login_page_def search_any_iff by blast
next
  assume "\<exists>!ind. ind \<in> set CLOUDFLARE_INDICATORS \<and> py_in (py_lower db ind) (py_lower db t3)"
  then have "length (filter (\<lambda>ind. py_in (py_lower db ind) (py_lower db t3))
                       CLOUDFLARE_INDICATORS) = 1"
    by (rule filter_unique_distinct [OF distinct_CLOUDFLARE_INDICATORS])
  then show "\<not> is_cloudflare_challenge db t3"
    by (simp add: is_cloudflare_challenge_def)
next
  assume "a \<in> set CLOUDFLARE_INDICATORS \<and> b \<in> set CLOUDFLARE_INDICATORS \<and> a \<noteq> b
        \<and> py_in (py_lower db a) (py_lower db t4) \<and> py_in (py_lower db b) (py_lower db t4)"
  then have "2 \<le> length (filter (\<lambda>ind. py_in (py_lower db ind) (py_lower db t4))
                            CLOUDFLARE_INDICATORS)"
    by (intro filter_two_distinct [of a _ b]) simp_all
  then show "is_cloudflare_challenge db t4"
    by (simp add: is_cloudflare_challenge_def)
qed

lemma ray_id_only: "(\<exists>!ind. ind \<in> set CLOUDFLARE_INDICATORS
              \<and> py_in (py_lower ascii_db ind) (py_lower ascii_db (U ''Ray ID: 1'')))"
proof (rule ex1I [of _ "U ''Ray ID:''"])
  show "U ''Ray ID:'' \<in> set CLOUDFLARE_INDICATORS \<and>
    py_in (py_lower ascii_db (U ''Ray ID:'')) (py_lower ascii_db (U ''Ray ID: 1''))"
    by (simp add: CLOUDFLARE_INDICATORS_def U_def py_lower_def ascii_lower_def)
next
  fix ind assume "ind \<in> set CLOUDFLARE_INDICATORS \<and>
           py_in (py_lower ascii_db ind) (py_lower ascii_db (U ''Ray ID: 1''))"
  then show "ind = U ''Ray ID:''"
    by (auto simp add: CLOUDFLARE_INDICATORS_def U_def py_lower_def ascii_lower_def)
qed

theorem validators_fire_witness:
  "(\<exists>ind \<in> set LOGIN_PAGE_INDICATORS. py_in ind (U ''Please Log in first''))
   \<and> is_login_page (U ''Please Log in first'')
   \<and> py_in (U ''Sign up'') (U ''Sign up'') \<and> is_login_page (U ''Sign up'')
   \<and> (\<exists>!ind. ind \<in> set CLOUDFLARE_INDICATORS
              \<and> py_in (py_lower ascii_db ind) (py_lower ascii_db (U ''Ray ID: 1'')))
   \<and> \<not> is_cloudflare_challenge ascii_db (U ''Ray ID: 1'')
   \<and> py_in (py_lower ascii_db (U ''Just a moment...''))
            (py_lower ascii_db (U ''just a moment... ray id: 1''))
   \<and> py_in (py_lower ascii_db (U ''Ray ID:''))
            (py_lower ascii_db (U ''just a moment... ray id: 1''))
   \<and> is_cloudflare_challenge ascii_db (U ''just a moment... ray id: 1'')"
proof -
  have h1: "\<exists>ind \<in> set LOGIN_PAGE_INDICATORS. py_in ind (U ''Please Log in first'')"
    by (simp add: LOGIN_PAGE_INDICATORS_def U_def)
  have h2: "py_in (U ''Sign up'') (U ''Sign up'')" by (simp add: U_def)
  have h4: "U ''Just a moment...'' \<in> set CLOUDFLARE_INDICATORS
      \<and> U ''Ray ID:'' \<in> set CLOUDFLARE_INDICATORS \<and> U ''Just a moment...'' \<noteq> U ''Ray ID:''
      \<and> py_in (py_lower ascii_db (U ''Just a moment...''))
            (py_lower ascii_db (U ''just a moment... ray id: 1''))
      \<and> py_in (py_lower ascii_db (U ''Ray ID:''))
            (py_lower ascii_db (U ''just a moment... ray id: 1''))"
    by (simp add: CLOUDFLARE_INDICATORS_def U_def py_lower_def ascii_lower_def)
  show ?thesis
    using h1 h2 ray_id_only h4
      validators_fire [of "U ''Please Log in first''" "U ''Sign up''" ascii_db "U ''Ray ID: 1''"
        "U ''Just a moment...''" "U ''Ray ID:''" "U ''just a moment... ray id: 1''"]
    by blast
qed

text \<open>
  C5. \<open>needs_js_rendering\<close> is a pure predicate: it is true exactly for the URLs that contain
  \<^verbatim>\<open>claude.ai/share/\<close>, \<^verbatim>\<open>chatgpt.com/share/\<close> or \<^verbatim>\<open>chat.openai.com/share/\<close>, and
  false for every other URL.
\<close>

theorem needs_js_rendering_iff:
  "needs_js_rendering url =
     (py_in (U ''claude.ai/share/'') url \<or> py_in (U ''chatgpt.com/share/'') url
      \<or> py_in (U ''chat.openai.com/share/'') url)"
  by (simp add: needs_js_rendering_def JS_REQUIRED_PATTERNS_def)

theorem needs_js_rendering_iff_witness:
  "needs_js_rendering (U ''https://claude.ai/share/abc'')
   \<and> needs_js_rendering (U ''https://chatgpt.com/share/1'')
   \<and> needs_js_rendering (U ''https://chat.openai.com/share/1'')
   \<and> \<not> needs_js_rendering (U ''https://example.com/share/claude.ai'')"
  using needs_js_rendering_iff [of "U ''https://claude.ai/share/abc''"]
        needs_js_rendering_iff [of "U ''https://chatgpt.com/share/1''"]
        needs_js_rendering_iff [of "U ''https://chat.openai.com/share/1''"]
        needs_js_rendering_iff [of "U ''https://example.com/share/claude.ai''"]
  by (simp add: U_def)

section \<open>Facts about the fetchers\<close>

lemma fetch_via_jina_cases:
  "(success (fetch_via_jina w url) \<and> error (fetch_via_jina w url) = None)
   \<or> (\<not> success (fetch_via_jina w url) \<and> (\<exists>e. error (fetch_via_jina w url) = Some e)
       \<and> content (fetch_via_jina w url) = [] \<and> title (fetch_via_jina w url) = [])"
  by (simp add: fetch_via_jina_def failure_def split: http_result.splits option.splits sum.splits)

lemma fetch_via_jina_error_text:
  "\<not> success (fetch_via_jina w url) \<Longrightarrow> error (fetch_via_jina w url) = Some [] \<Longrightarrow>
   urlopen w (JINA_READER_PREFIX @ url) = OtherException []
   \<or> (\<exists>body. urlopen w (JINA_READER_PREFIX @ url) = Body body \<and> urlparse_netloc w url = Inl [])"
  by (simp add: fetch_via_jina_def failure_def U_def
           split: http_result.splits option.splits sum.splits if_splits)

lemma fetch_via_playwright_cases:
  "(success (fetch_via_playwright db w url) \<and> error (fetch_via_playwright db w url) = None
      \<and> content (fetch_via_playwright db w url) \<noteq> [])
   \<or> (\<not> success (fetch_via_playwright db w url)
       \<and> (\<exists>e. error (fetch_via_playwright db w url) = Some e \<and> e \<noteq> [])
       \<and> content (fetch_via_playwright db w url) = []
       \<and> title (fetch_via_playwright db w url) = [])"
  by (simp add: fetch_via_playwright_def failure_def U_def split: render_result.splits)

lemma login_wall_error:
  "urlopen w (JINA_READER_PREFIX @ url) = Body body \<Longrightarrow> is_login_page body \<Longrightarrow>
   fetch_via_jina w url = failure (U ''Got login page instead of content (JS rendering required)'')"
  by (simp add: fetch_via_jina_def)

lemma js_rendering_in_login_error:
  "py_in (U ''JS rendering'') (U ''Got login page instead of content (JS rendering required)'')"
  by (simp add: U_def)

lemma fetch_url_cases:
  "fetch_url db w url =
     Inr (if needs_js_rendering url then (fetch_via_playwright db w url, [Playwright])
          else if success (fetch_via_jina w url) then (fetch_via_jina w url, [Jina])
          else if (\<exists>e. error (fetch_via_jina w url) = Some e
                       \<and> (py_in (U ''login page'') (py_lower db e) \<or> py_in (U ''JS rendering'') e))
          then (fetch_via_playwright db w url, [Jina, Playwright])
          else (fetch_via_jina w url, [Jina]))"
  using fetch_via_jina_cases [of w url]
  by (auto simp: fetch_url_def Let_def split: option.splits)

lemma sample_url_plain: "\<not> needs_js_rendering (U ''https://example.com/x'')"
  by (simp add: needs_js_rendering_def JS_REQUIRED_PATTERNS_def U_def)

lemma forbidden_jina:
  "fetch_via_jina forbidden_world (U ''https://example.com/x'')
     = failure (U ''HTTP 403: Login Page Required'')"
  by (simp add: fetch_via_jina_def forbidden_world_def U_def)

lemma forbidden_fallback:
  "fetch_url ascii_db forbidden_world (U ''https://example.com/x'')
     = Inr (fetch_via_playwright ascii_db forbidden_world (U ''https://example.com/x''),
            [Jina, Playwright])"
proof -
  have "py_in (U ''login page'') (py_lower ascii_db (U ''HTTP 403: Login Page Required''))"
    by (simp add: py_lower_def ascii_lower_def U_def)
  then show ?thesis
    unfolding fetch_url_cases forbidden_jina using sample_url_plain by (simp add: failure_def)
qed

lemma long_page_usable:
  "long_page \<noteq> [] \<and> \<not> length (py_strip long_page) < 100
   \<and> \<not> is_cloudflare_challenge ascii_db long_page \<and> U ''Page'' \<noteq> U ''Just a moment...''"
  by code_simp

lemma rendered_long_page:
  "render w url = Rendered long_page (U ''Page'') \<Longrightarrow>
   fetch_via_playwright ascii_db w url
     = \<lparr>success = True, title = U ''Page'', content = long_page, error = None\<rparr>"
  using long_page_usable by (simp add: fetch_via_playwright_def)

lemma inr_pair: "\<exists>a b. Inr p = Inr (a, b)"
  by (cases p) simp

lemma fetch_url_outcome_origin:
  "fetch_url db w url = Inr (r, calls) \<Longrightarrow>
   r = fetch_via_jina w url \<or> r = fetch_via_playwright db w url"
  by (cases "needs_js_rendering url"; cases "success (fetch_via_jina w url)";
      cases "error (fetch_via_jina w url)")
     (auto simp: fetch_url_def Let_def split: if_splits)

lemma fetch_via_jina_success_body:
  "success (fetch_via_jina w url) \<Longrightarrow>
   urlopen w (JINA_READER_PREFIX @ url) = Body (content (fetch_via_jina w url))"
  by (cases "urlopen w (JINA_READER_PREFIX @ url)")
     (auto simp add: fetch_via_jina_def failure_def split: option.splits sum.splits if_splits)

lemma fetch_via_playwright_success_length:
  "success (fetch_via_playwright db w url) \<Longrightarrow>
   100 \<le> length (py_strip (content (fetch_via_playwright db w url)))"
  by (cases "render w url")
     (auto simp add: fetch_via_playwright_def failure_def split: if_splits)

section \<open>Claims on the orchestrator\<close>

text \<open>
  C1, as the code has it. When \<open>needs_js_rendering\<close> holds, \<open>fetch_url\<close> returns the result of
  the rendered fetch and calls nothing else. Otherwise it calls the proxy fetch and returns
  its result when that succeeded. When the proxy fetch failed and its error text contains
  \<^verbatim>\<open>login page\<close> after lower-casing, or contains \<^verbatim>\<open>JS rendering\<close>, it calls the rendered
  fetch and returns that result. On every other proxy failure it returns the failure as it
  is and calls nothing else.
\<close>

theorem fetch_url_decision:
  "(needs_js_rendering url \<longrightarrow>
      fetch_url db w url = Inr (fetch_via_playwright db w url, [Playwright]))
   \<and> (\<not> needs_js_rendering url \<and> success (fetch_via_jina w url) \<longrightarrow>
      fetch_url db w url = Inr (fetch_via_jina w url, [Jina]))
   \<and> (\<not> needs_js_rendering url \<and> \<not> success (fetch_via_jina w url)
       \<and> error (fetch_via_jina w url) = Some e
       \<and> (py_in (U ''login page'') (py_lower db e) \<or> py_in (U ''JS rendering'') e) \<longrightarrow>
      fetch_url db w url = Inr (fetch_via_playwright db w url, [Jina, Playwright]))
   \<and> (\<not> needs_js_rendering url \<and> \<not> success (fetch_via_jina w url)
       \<and> error (fetch_via_jina w url) = Some e
       \<and> \<not> (py_in (U ''login page'') (py_lower db e) \<or> py_in (U ''JS rendering'') e) \<longrightarrow>
      fetch_url db w url = Inr (fetch_via_jina w url, [Jina]))"
  unfolding fetch_url_cases by simp

theorem fetch_url_decision_witness:
  "needs_js_rendering (U ''https://claude.ai/share/x'')
   \<and> fetch_url ascii_db offline_world (U ''https://claude.ai/share/x'')
       = Inr (fetch_via_playwright ascii_db offline_world (U ''https://claude.ai/share/x''),
              [Playwright])
   \<and> \<not> needs_js_rendering (U ''https://example.com/x'')
   \<and> success (fetch_via_jina article_world (U ''https://example.com/x''))
   \<and> fetch_url ascii_db article_world (U ''https://example.com/x'')
       = Inr (fetch_via_jina article_world (U ''https://example.com/x''), [Jina])
   \<and> \<not> success (fetch_via_jina login_wall_world (U ''https://example.com/x''))
   \<and> error (fetch_via_jina login_wall_world (U ''https://example.com/x''))
       = Some (U ''Got login page instead of content (JS rendering required)'')
   \<and> py_in (U ''JS rendering'') (U ''Got login page instead of content (JS rendering required)'')
   \<and> fetch_url ascii_db login_wall_world (U ''https://example.com/x'')
       = Inr (fetch_via_playwright ascii_db login_wall_world (U ''https://example.com/x''),
              [Jina, Playwright])
   \<and> \<not> success (fetch_via_jina offline_world (U ''https://example.com/x''))
   \<and> error (fetch_via_jina offline_world (U ''https://example.com/x''))
       = Some (U ''URL Error: timed out'')
   \<and> \<not> (py_in (U ''login page'') (py_lower ascii_db (U ''URL Error: timed out''))
          \<or> py_in (U ''JS rendering'') (U ''URL Error: timed out''))
   \<and> fetch_url ascii_db offline_world (U ''https://example.com/x'')
       = Inr (fetch_via_jina offline_world (U ''https://example.com/x''), [Jina])"
proof -
  have a: "needs_js_rendering (U ''https://claude.ai/share/x'')"
    by (simp add: needs_js_rendering_def JS_REQUIRED_PATTERNS_def U_def)
  have b: "success (fetch_via_jina article_world (U ''https://example.com/x''))"
    by (simp add: fetch_via_jina_def article_world_def is_login_page_def
          LOGIN_PAGE_INDICATORS_def heading_at_def is_space_def U_def)
  have c: "fetch_via_jina login_wall_world (U ''https://example.com/x'')
             = failure (U ''Got login page instead of content (JS rendering required)'')"
    by (rule login_wall_error [of _ _ "U ''Continue with Google''"])
       (simp_all add: login_wall_world_def is_login_page_def LOGIN_PAGE_INDICATORS_def U_def)
  have d: "fetch_via_jina offline_world (U ''https://example.com/x'')
             = failure (U ''URL Error: timed out'')"
    by (simp add: fetch_via_jina_def offline_world_def U_def)
  have e: "\<not> (py_in (U ''login page'') (py_lower ascii_db (U ''URL Error: timed out''))
          \<or> py_in (U ''JS rendering'') (U ''URL Error: timed out''))"
    by (simp add: py_lower_def ascii_lower_def U_def)
  show ?thesis
    using a b e sample_url_plain js_rendering_in_login_error
      fetch_url_decision [of "U ''https://claude.ai/share/x''" ascii_db offline_world]
      fetch_url_decision [of "U ''https://example.com/x''" ascii_db article_world]
      fetch_url_decision [of "U ''https://example.com/x''" ascii_db login_wall_world
        "U ''Got login page instead of content (JS rendering required)''"]
      fetch_url_decision [of "U ''https://example.com/x''" ascii_db offline_world
        "U ''URL Error: timed out''"]
    unfolding c d by (simp add: failure_def)
qed

text \<open>
  C1 as stated fails: the test for \<^verbatim>\<open>login page\<close> is made on the lower-cased error text.
  A 403 from the proxy whose reason phrase is \<^verbatim>\<open>Login Page Required\<close> gives an error text
  that contains neither \<^verbatim>\<open>login page\<close> nor \<^verbatim>\<open>JS rendering\<close>, yet the rendered fetch is
  called and its result returned.
\<close>

theorem fetch_url_decision_counterexample:
  "\<not> needs_js_rendering (U ''https://example.com/x'')
   \<and> \<not> success (fetch_via_jina forbidden_world (U ''https://example.com/x''))
   \<and> error (fetch_via_jina forbidden_world (U ''https://example.com/x''))
       = Some (U ''HTTP 403: Login Page Required'')
   \<and> \<not> py_in (U ''login page'') (U ''HTTP 403: Login Page Required'')
   \<and> \<not> py_in (U ''JS rendering'') (U ''HTTP 403: Login Page Required'')
   \<and> fetch_url ascii_db forbidden_world (U ''https://example.com/x'')
       \<noteq> Inr (fetch_via_jina forbidden_world (U ''https://example.com/x''), [Jina])
   \<and> fetch_url ascii_db forbidden_world (U ''https://example.com/x'')
       = Inr (\<lparr>success = True, title = U ''Page'', content = long_page, error = None\<rparr>,
              [Jina, Playwright])"
proof -
  have "\<not> py_in (U ''login page'') (U ''HTTP 403: Login Page Required'')
      \<and> \<not> py_in (U ''JS rendering'') (U ''HTTP 403: Login Page Required'')"
    by (simp add: U_def)
  moreover have "render forbidden_world (U ''https://example.com/x'')
                   = Rendered long_page (U ''Page'')"
    by (simp add: forbidden_world_def)
  ultimately show ?thesis
    using sample_url_plain rendered_long_page [of forbidden_world "U ''https://example.com/x''"]
    unfolding forbidden_fallback forbidden_jina by (simp add: failure_def)
qed

text \<open>
  C2, as the code has it. For a URL that is not a share link, a proxy body that contains
  \<^verbatim>\<open>Continue with Google\<close> makes \<open>fetch_url\<close> call the rendered fetch after the proxy fetch,
  and the outcome of \<open>fetch_url\<close> is the outcome of the rendered fetch.
\<close>

theorem login_wall_falls_back:
  assumes "\<not> needs_js_rendering url"
    and "urlopen w (JINA_READER_PREFIX @ url) = Body body"
    and "py_in (U ''Continue with Google'') body"
  shows "fetch_url db w url = Inr (fetch_via_playwright db w url, [Jina, Playwright])"
proof -
  have "U ''Continue with Google'' \<in> set LOGIN_PAGE_INDICATORS"
    by (simp add: LOGIN_PAGE_INDICATORS_def)
  with assms(3) have "is_login_page body"
    unfolding is_login_page_def search_any_iff by blast
  with assms(2) have "fetch_via_jina w url
      = failure (U ''Got login page instead of content (JS rendering required)'')"
    by (rule login_wall_error)
  then show ?thesis
    unfolding fetch_url_cases using assms(1) js_rendering_in_login_error
    by (simp add: failure_def)
qed

theorem login_wall_falls_back_witness:
  "\<not> needs_js_rendering (U ''https://example.com/x'')
   \<and> urlopen login_wall_world (JINA_READER_PREFIX @ U ''https://example.com/x'')
       = Body (U ''Continue with Google'')
   \<and> py_in (U ''Continue with Google'') (U ''Continue with Google'')
   \<and> fetch_url ascii_db login_wall_world (U ''https://example.com/x'')
       = Inr (fetch_via_playwright ascii_db login_wall_world (U ''https://example.com/x''),
              [Jina, Playwright])"
proof -
  have a: "urlopen login_wall_world (JINA_READER_PREFIX @ U ''https://example.com/x'')
       = Body (U ''Continue with Google'')"
    by (simp add: login_wall_world_def)
  have b: "py_in (U ''Continue with Google'') (U ''Continue with Google'')"
    by (simp add: U_def)
  show ?thesis
    using a b sample_url_plain login_wall_falls_back [OF sample_url_plain a b, of ascii_db]
    by simp
qed

text \<open>
  C2 as stated fails: with a proxy body \<^verbatim>\<open>Continue with Google\<close> for a URL that is not a
  share link, the rendered fetch is called, and when the browser delivers a page the outcome
  of \<open>fetch_url\<close> is a success.
\<close>

theorem login_wall_falls_back_counterexample:
  "\<not> needs_js_rendering (U ''https://example.com/x'')
   \<and> urlopen login_wall_world (JINA_READER_PREFIX @ U ''https://example.com/x'')
       = Body (U ''Continue with Google'')
   \<and> py_in (U ''Continue with Google'') (U ''Continue with Google'')
   \<and> fetch_url ascii_db login_wall_world (U ''https://example.com/x'')
       = Inr (\<lparr>success = True, title = U ''Page'', content = long_page, error = None\<rparr>,
              [Jina, Playwright])"
proof -
  have a: "urlopen login_wall_world (JINA_READER_PREFIX @ U ''https://example.com/x'')
       = Body (U ''Continue with Google'')"
    by (simp add: login_wall_world_def)
  have b: "py_in (U ''Continue with Google'') (U ''Continue with Google'')"
    by (simp add: U_def)
  have "is_login_page (U ''Continue with Google'')"
    by (simp add: is_login_page_def LOGIN_PAGE_INDICATORS_def U_def)
  with a have c: "fetch_via_jina login_wall_world (U ''https://example.com/x'')
      = failure (U ''Got login page instead of content (JS rendering required)'')"
    by (rule login_wall_error)
  have d: "fetch_via_playwright ascii_db login_wall_world (U ''https://example.com/x'')
      = \<lparr>success = True, title = U ''Page'', content = long_page, error = None\<rparr>"
    by (rule rendered_long_page) (simp add: login_wall_world_def)
  show ?thesis
    unfolding fetch_url_cases c d
    using a b sample_url_plain js_rendering_in_login_error by (simp add: failure_def)
qed

text \<open>
  C3, as the code has it. Every outcome returned by \<open>fetch_via_jina\<close>, \<open>fetch_via_playwright\<close>
  and \<open>fetch_url\<close> is exactly one of: a success with no error, or a failure with an error
  text and with empty content and title; \<open>fetch_url\<close> always returns an outcome. A success
  of the rendered fetch carries at least 100 characters after stripping and its failures
  carry a non-empty error text. A success of the proxy fetch carries the response body as
  it is, and the error text of a proxy failure is empty only when it is the message of an
  exception whose message is empty.
\<close>

theorem outcome_contract:
  "(r = fetch_via_jina w url \<or> r = fetch_via_playwright db w url
      \<or> (\<exists>calls. fetch_url db w url = Inr (r, calls)) \<longrightarrow>
      (success r \<and> error r = None)
      \<or> (\<not> success r \<and> (\<exists>e. error r = Some e) \<and> content r = [] \<and> title r = []))
   \<and> (\<exists>r' calls. fetch_url db w url = Inr (r', calls))
   \<and> (success (fetch_via_playwright db w url) \<longrightarrow>
        100 \<le> length (py_strip (content (fetch_via_playwright db w url))))
   \<and> error (fetch_via_playwright db w url) \<noteq> Some []
   \<and> (success (fetch_via_jina w url) \<longrightarrow>
        urlopen w (JINA_READER_PREFIX @ url) = Body (content (fetch_via_jina w url)))
   \<and> (error (fetch_via_jina w url) = Some [] \<longrightarrow>
        urlopen w (JINA_READER_PREFIX @ url) = OtherException []
        \<or> (\<exists>body. urlopen w (JINA_READER_PREFIX @ url) = Body body
                  \<and> urlparse_netloc w url = Inl []))"
proof (intro conjI impI)
  assume "r = fetch_via_jina w url \<or> r = fetch_via_playwright db w url
      \<or> (\<exists>calls. fetch_url db w url = Inr (r, calls))"
  then have "r = fetch_via_jina w url \<or> r = fetch_via_playwright db w url"
    using fetch_url_outcome_origin [of db w url r] by blast
  then consider (j) "r = fetch_via_jina w url" | (p) "r = fetch_via_playwright db w url"
    by blast
  then show "(success r \<and> error r = None)
      \<or> (\<not> success r \<and> (\<exists>e. error r = Some e) \<and> content r = [] \<and> title r = [])"
  proof cases
    case j
    show ?thesis unfolding j using fetch_via_jina_cases [of w url] by simp
  next
    case p
    show ?thesis unfolding p using fetch_via_playwright_cases [of db w url] by auto
  qed
next
  show "\<exists>r' calls. fetch_url db w url = Inr (r', calls)"
    unfolding fetch_url_cases by (rule inr_pair)
next
  assume "success (fetch_via_playwright db w url)"
  then show "100 \<le> length (py_strip (content (fetch_via_playwright db w url)))"
    by (rule fetch_via_playwright_success_length)
next
  show "error (fetch_via_playwright db w url) \<noteq> Some []"
    using fetch_via_playwright_cases [of db w url] by auto
next
  assume "success (fetch_via_jina w url)"
  then show "urlopen w (JINA_READER_PREFIX @ url) = Body (content (fetch_via_jina w url))"
    by (rule fetch_via_jina_success_body)
next
  assume e: "error (fetch_via_jina w url) = Some []"
  then have "\<not> success (fetch_via_jina w url)"
    using fetch_via_jina_cases [of w url] by auto
  then show "urlopen w (JINA_READER_PREFIX @ url) = OtherException []
        \<or> (\<exists>body. urlopen w (JINA_READER_PREFIX @ url) = Body body
                  \<and> urlparse_netloc w url = Inl [])"
    using e by (rule fetch_via_jina_error_text)
qed

theorem outcome_contract_witness:
  "success (fetch_via_jina article_world (U ''https://example.com/x''))
   \<and> error (fetch_via_jina article_world (U ''https://example.com/x'')) = None
   \<and> urlopen article_world (JINA_READER_PREFIX @ U ''https://example.com/x'')
       = Body (content (fetch_via_jina article_world (U ''https://example.com/x'')))
   \<and> success (fetch_via_playwright ascii_db bare_exception_world (U ''https://example.com/x''))
   \<and> 100 \<le> length (py_strip (content
         (fetch_via_playwright ascii_db bare_exception_world (U ''https://example.com/x''))))
   \<and> error (fetch_via_jina bare_exception_world (U ''https://example.com/x'')) = Some []
   \<and> urlopen bare_exception_world (JINA_READER_PREFIX @ U ''https://example.com/x'')
       = OtherException []
   \<and> \<not> success (fetch_via_jina bare_exception_world (U ''https://example.com/x''))
   \<and> content (fetch_via_jina bare_exception_world (U ''https://example.com/x'')) = []"
proof -
  have a: "success (fetch_via_jina article_world (U ''https://example.com/x''))"
    by (simp add: fetch_via_jina_def article_world_def is_login_page_def
          LOGIN_PAGE_INDICATORS_def heading_at_def is_space_def U_def)
  have b: "success (fetch_via_playwright ascii_db bare_exception_world
             (U ''https://example.com/x''))"
    by (subst rendered_long_page) (simp_all add: bare_exception_world_def)
  have c: "error (fetch_via_jina bare_exception_world (U ''https://example.com/x'')) = Some []"
    by (simp add: fetch_via_jina_def bare_exception_world_def failure_def)
  have d: "urlopen bare_exception_world (JINA_READER_PREFIX @ U ''https://example.com/x'')
       = OtherException []"
    by (simp add: bare_exception_world_def)
  show ?thesis
    using a b c d
      outcome_contract [of "fetch_via_jina article_world (U ''https://example.com/x'')"
        article_world "U ''https://example.com/x''" ascii_db]
      outcome_contract [of "fetch_via_jina bare_exception_world (U ''https://example.com/x'')"
        bare_exception_world "U ''https://example.com/x''" ascii_db]
    by simp
qed

text \<open>
  C3 as stated fails: a proxy response with an empty body is returned as a success whose
  content is the empty string, by \<open>fetch_via_jina\<close> and by \<open>fetch_url\<close>.
\<close>

theorem outcome_contract_counterexample:
  "fetch_via_jina empty_body_world (U ''https://example.com/x'')
     = \<lparr>success = True, title = U ''example.com'', content = [], error = None\<rparr>
   \<and> fetch_url ascii_db empty_body_world (U ''https://example.com/x'')
     = Inr (\<lparr>success = True, title = U ''example.com'', content = [], error = None\<rparr>, [Jina])"
proof -
  have a: "fetch_via_jina empty_body_world (U ''https://example.com/x'')
     = \<lparr>success = True, title = U ''example.com'', content = [], error = None\<rparr>"
    by (simp add: fetch_via_jina_def empty_body_world_def is_login_page_def
          LOGIN_PAGE_INDICATORS_def U_def)
  show ?thesis unfolding fetch_url_cases a using sample_url_plain by simp
qed

section \<open>Facts about the input parser\<close>

lemma collect_list_items_eq:
  "collect_list_items lines acc
     = acc @ map (\<lambda>l. the (line_item l)) (filter (\<lambda>l. line_item l \<noteq> None) lines)"
  by (induction lines arbitrary: acc) (auto split: option.splits)

lemma json_form_skipped:
  "(\<not> prefix (U ''{'') text \<and> \<not> prefix (U ''['') text) \<or> loads text = Inl JSONDecodeError \<Longrightarrow>
   json_form loads text = None"
  by (auto simp: json_form_def)

lemma split_on_empty: "split_on sep [] = [[]]"
  by simp

lemma line_item_empty: "line_item [] = None"
  by (simp add: line_item_def py_strip_def list_match_def)

lemma parse_list_form:
  assumes "json_form loads (py_strip txt) = None"
    and "\<exists>line \<in> set (split_on NL (py_strip txt)). line_item line \<noteq> None"
  shows "parse_input_file loads txt
           = Inr (map (\<lambda>l. the (line_item l))
                    (filter (\<lambda>l. line_item l \<noteq> None) (split_on NL (py_strip txt))))"
proof -
  let ?lines = "split_on NL (py_strip txt)"
  have ne: "py_strip txt \<noteq> []"
  proof
    assume "py_strip txt = []"
    with assms(2) show False by (simp add: line_item_empty)
  qed
  have "filter (\<lambda>l. line_item l \<noteq> None) ?lines \<noteq> []"
    using assms(2) by (simp add: filter_empty_conv)
  then have "collect_list_items ?lines [] \<noteq> []"
    by (simp add: collect_list_items_eq)
  then show ?thesis
    using ne assms(1) by (simp add: parse_input_file_def Let_def collect_list_items_eq)
qed

lemma two_bullets_lines:
  "json_form loads (py_strip two_bullets) = None
   \<and> map line_item (split_on NL (py_strip two_bullets))
       = [Some \<lparr>item_url = JStr (U ''https://example.com/a''), item_note = JStr (U ''first'')\<rparr>,
          Some \<lparr>item_url = JStr (U ''https://example.com/b''), item_note = JStr []\<rparr>]"
  by (simp add: two_bullets_def json_form_def py_strip_def is_space_def NL_def U_def
        line_item_def list_match_def strip_scheme_def)

lemma filter_map_line_item:
  "map (\<lambda>l. the (line_item l)) (filter (\<lambda>l. line_item l \<noteq> None) ls)
     = map the (filter (\<lambda>i. i \<noteq> None) (map line_item ls))"
  by (induction ls) auto

lemma two_bullets_parse: "parse_input_file loads two_bullets = Inr two_bullet_items"
proof -
  have j: "json_form loads (py_strip two_bullets) = None"
    using two_bullets_lines by simp
  have m: "map line_item (split_on NL (py_strip two_bullets))
       = [Some \<lparr>item_url = JStr (U ''https://example.com/a''), item_note = JStr (U ''first'')\<rparr>,
          Some \<lparr>item_url = JStr (U ''https://example.com/b''), item_note = JStr []\<rparr>]"
    using two_bullets_lines [of loads] by simp
  have "\<exists>i \<in> set (map line_item (split_on NL (py_strip two_bullets))). i \<noteq> None"
    unfolding m by simp
  then have b: "\<exists>line \<in> set (split_on NL (py_strip two_bullets)). line_item line \<noteq> None"
    by auto
  show ?thesis
    unfolding parse_list_form [OF j b] filter_map_line_item m by (simp add: two_bullet_items_def)
qed

lemma py_strip_id:
  "s \<noteq> [] \<Longrightarrow> \<not> is_space (hd s) \<Longrightarrow> \<not> is_space (last s) \<Longrightarrow> py_strip s = s"
proof -
  assume s: "s \<noteq> []" "\<not> is_space (hd s)" "\<not> is_space (last s)"
  then have "dropWhile is_space s = s" by (cases s) simp_all
  moreover have "dropWhile is_space (rev s) = rev s"
    using s by (cases "rev s") (simp_all add: hd_rev)
  ultimately show ?thesis by (simp add: py_strip_def)
qed

lemma split_on_no_sep: "sep \<notin> set xs \<Longrightarrow> split_on sep xs = [xs]"
  by (induction xs) auto

lemma split_on_at_sep:
  "sep \<notin> set xs \<Longrightarrow> split_on sep (xs @ sep # ys) = xs # split_on sep ys"
  by (induction xs) auto

lemma deep_text_facts:
  "py_strip deep_text = deep_text
   \<and> prefix (U ''['') deep_text
   \<and> split_on NL deep_text = [U ''['' @ replicate 999 91, U ''- https://example.com/a'']"
proof (intro conjI)
  have l: "last deep_text = 97" by (simp add: deep_text_def U_def)
  have h: "hd deep_text = 91" by (simp add: deep_text_def U_def)
  have n: "deep_text \<noteq> []" by (simp add: deep_text_def U_def)
  show "py_strip deep_text = deep_text"
    using n by (rule py_strip_id) (simp_all add: l h is_space_def)
  show "prefix (U ''['') deep_text" by (simp add: deep_text_def)
  have a: "NL \<notin> set (U ''['' @ replicate 999 91)" by (simp add: U_def NL_def)
  have b: "NL \<notin> set (U ''- https://example.com/a'')" by (simp add: U_def NL_def)
  have e: "deep_text = (U ''['' @ replicate 999 91) @ NL # U ''- https://example.com/a''"
    by (simp add: deep_text_def)
  show "split_on NL deep_text = [U ''['' @ replicate 999 91, U ''- https://example.com/a'']"
    unfolding e by (simp only: split_on_at_sep [OF a] split_on_no_sep [OF b])
qed

lemma bullet_a_item:
  "line_item (U ''- https://example.com/a'')
     = Some \<lparr>item_url = JStr (U ''https://example.com/a''), item_note = JStr []\<rparr>"
  by (simp add: line_item_def list_match_def py_strip_def is_space_def strip_scheme_def U_def)

section \<open>Claims on the input parser\<close>

text \<open>
  C6 fails on the code. The text of a thousand opening brackets followed by the line
  \<^verbatim>\<open>- https://example.com/a\<close> has a line that matches the bullet pattern, but it begins with a
  bracket, \<^verbatim>\<open>json.loads\<close> raises \<^verbatim>\<open>RecursionError\<close> on it, and the \<^verbatim>\<open>try\<close> block, which catches
  \<^verbatim>\<open>JSONDecodeError\<close> only, lets the exception leave \<open>parse_input_file\<close>: no item is returned
  for the bullet line.
\<close>

theorem bullet_line_lost_to_decoder:
  "loads deep_text = Inl RecursionError \<Longrightarrow>
   split_on NL (py_strip deep_text) = [U ''['' @ replicate 999 91, U ''- https://example.com/a'']
   \<and> line_item (U ''- https://example.com/a'')
       = Some \<lparr>item_url = JStr (U ''https://example.com/a''), item_note = JStr []\<rparr>
   \<and> parse_input_file loads deep_text = Inl RecursionError"
proof -
  assume r: "loads deep_text = Inl RecursionError"
  have n: "deep_text \<noteq> []" by (simp add: deep_text_def U_def)
  have j: "json_form loads deep_text = Some (Inl RecursionError)"
    using deep_text_facts r by (simp add: json_form_def)
  have "parse_input_file loads deep_text = Inl RecursionError"
    using n deep_text_facts by (simp add: parse_input_file_def Let_def j)
  with deep_text_facts bullet_a_item show ?thesis by simp
qed

theorem bullet_line_lost_to_decoder_witness:
  "sample_loads deep_text = Inl RecursionError
   \<and> split_on NL (py_strip deep_text)
       = [U ''['' @ replicate 999 91, U ''- https://example.com/a'']
   \<and> parse_input_file sample_loads deep_text = Inl RecursionError"
proof -
  have "length deep_text \<noteq> length url_array_text"
    by (simp add: deep_text_def url_array_text_def U_def)
  then have "deep_text \<noteq> url_array_text" by auto
  then have a: "sample_loads deep_text = Inl RecursionError"
    by (simp add: sample_loads_def)
  show ?thesis using a bullet_line_lost_to_decoder [of sample_loads] by simp
qed

text \<open>
  C7 fails on the code. The \<^verbatim>\<open>try\<close> block catches \<^verbatim>\<open>JSONDecodeError\<close> only: a text that is
  valid JSON for an array whose elements are not objects, such as one URL string in
  brackets, makes \<^verbatim>\<open>item.get\<close> raise \<^verbatim>\<open>AttributeError\<close> out of \<open>parse_input_file\<close>.
\<close>

theorem parse_input_file_raises:
  "loads url_array_text = Inr (JArr [JStr (U ''https://example.com/a'')]) \<Longrightarrow>
   parse_input_file loads url_array_text = Inl AttributeError"
  by (simp add: parse_input_file_def json_form_def item_of_json_def url_array_text_def
        py_strip_def is_space_def U_def)

theorem parse_input_file_raises_witness:
  "sample_loads url_array_text = Inr (JArr [JStr (U ''https://example.com/a'')])
   \<and> parse_input_file sample_loads url_array_text = Inl AttributeError"
proof -
  have a: "sample_loads url_array_text = Inr (JArr [JStr (U ''https://example.com/a'')])"
    by (simp add: sample_loads_def)
  show ?thesis using a parse_input_file_raises [of sample_loads] by simp
qed

section \<open>Facts about slugs\<close>

lemma is_sep_hyphen: "is_sep 45"
  by (simp add: is_sep_def)

lemma collapse_set: "set (collapse xs) \<subseteq> insert 45 {c \<in> set xs. \<not> is_sep c}"
proof (induction xs rule: collapse.induct)
  case 1
  show ?case by simp
next
  case (2 c cs)
  show ?case
  proof (cases "is_sep c")
    case True
    have "set (dropWhile is_sep cs) \<subseteq> set cs"
      by (auto dest: set_dropWhileD)
    with 2(1) [OF True] True show ?thesis by auto
  next
    case False
    with 2(2) [OF False] show ?thesis by auto
  qed
qed

lemma collapse_Nil_iff: "collapse xs = [] \<longleftrightarrow> xs = []"
  by (cases xs) simp_all

lemma collapse_hd: "xs \<noteq> [] \<Longrightarrow> \<not> is_sep (hd xs) \<Longrightarrow> hd (collapse xs) = hd xs"
  by (cases xs) simp_all

lemma collapse_no_double: "successively (\<lambda>a b. \<not> (a = 45 \<and> b = 45)) (collapse xs)"
proof (induction xs rule: collapse.induct)
  case 1
  show ?case by simp
next
  case (2 c cs)
  show ?case
  proof (cases "is_sep c")
    case True
    let ?ys = "dropWhile is_sep cs"
    have "collapse ?ys = [] \<or> hd (collapse ?ys) \<noteq> 45"
    proof (cases "?ys = []")
      case True
      then have "collapse ?ys = []" by (simp only: collapse.simps)
      then show ?thesis by blast
    next
      case False
      then have "\<not> is_sep (hd ?ys)" by (rule hd_dropWhile)
      with False have "hd (collapse ?ys) = hd ?ys" "hd ?ys \<noteq> 45"
        using is_sep_hyphen by (auto simp: collapse_hd)
      then show ?thesis by simp
    qed
    with 2(1) [OF True] True show ?thesis
      by (auto simp: successively_Cons)
  next
    case False
    then have "c \<noteq> 45" using is_sep_hyphen by auto
    with 2(2) [OF False] False show ?thesis
      by (auto simp: successively_Cons)
  qed
qed

lemma strip_hyphens_take_drop:
  "\<exists>m n. strip_hyphens s = take m (drop n s)
         \<and> drop n s = dropWhile (\<lambda>c. c = 45) s"
  by (metis strip_hyphens_def dropWhile_eq_drop rev_drop rev_rev_ident)

lemma successively_take_drop:
  assumes "successively P xs"
  shows "successively P (take m (drop n xs))"
proof -
  have "successively P (take n xs @ drop n xs)"
    using assms by (simp only: append_take_drop_id)
  then have "successively P (drop n xs)"
    unfolding successively_append_iff by blast
  then have "successively P (take m (drop n xs) @ drop m (drop n xs))"
    by (simp only: append_take_drop_id)
  then show ?thesis
    unfolding successively_append_iff by blast
qed

lemma strip_hyphens_set: "set (strip_hyphens s) \<subseteq> set s"
proof -
  obtain m n where "strip_hyphens s = take m (drop n s)"
    using strip_hyphens_take_drop by blast
  then show ?thesis
    by (metis set_take_subset set_drop_subset subset_trans)
qed

lemma strip_hyphens_hd: "strip_hyphens s \<noteq> [] \<Longrightarrow> hd (strip_hyphens s) \<noteq> 45"
proof -
  assume ne: "strip_hyphens s \<noteq> []"
  obtain m n where mn: "strip_hyphens s = take m (drop n s)"
      "drop n s = dropWhile (\<lambda>c. c = 45) s"
    using strip_hyphens_take_drop by blast
  from ne mn have d: "dropWhile (\<lambda>c. c = 45) s \<noteq> []" and m: "m \<noteq> 0" by auto
  from d have "hd (dropWhile (\<lambda>c. c = 45) s) \<noteq> 45"
    using hd_dropWhile [of "\<lambda>c. c = 45" s] by simp
  moreover have "hd (strip_hyphens s) = hd (dropWhile (\<lambda>c. c = 45) s)"
    using m unfolding mn(1) mn(2) by (cases m) (simp_all add: hd_take)
  ultimately show ?thesis by simp
qed

lemma strip_hyphens_last: "strip_hyphens s \<noteq> [] \<Longrightarrow> last (strip_hyphens s) \<noteq> 45"
proof -
  assume ne: "strip_hyphens s \<noteq> []"
  let ?d = "dropWhile (\<lambda>c. c = 45) (rev (dropWhile (\<lambda>c. c = 45) s))"
  from ne have d: "?d \<noteq> []" by (simp add: strip_hyphens_def)
  then have "hd ?d \<noteq> 45"
    using hd_dropWhile [of "\<lambda>c. c = 45" "rev (dropWhile (\<lambda>c. c = 45) s)"] by simp
  moreover have "last (strip_hyphens s) = hd ?d"
    using d by (simp add: strip_hyphens_def last_rev)
  ultimately show ?thesis by simp
qed

lemma slug_length: "length (slugify db t) \<le> 50"
  by (simp add: slugify_def Let_def)

lemma slug_chars:
  assumes "c \<in> set (slugify db t)"
  shows "c = 45 \<or> (is_word db c \<and> \<not> is_space c \<and> c \<in> set (py_lower db t))"
proof -
  let ?f = "filter (\<lambda>c. is_word db c \<or> is_space c \<or> c = 45) (py_lower db t)"
  from assms have "c \<in> set (strip_hyphens (collapse ?f))"
    by (auto simp: slugify_def Let_def dest: in_set_takeD)
  then have "c \<in> set (collapse ?f)" using strip_hyphens_set by blast
  then have "c = 45 \<or> (c \<in> set ?f \<and> \<not> is_sep c)" using collapse_set by blast
  then show ?thesis by (auto simp: is_sep_def)
qed

lemma slug_no_double: "successively (\<lambda>a b. \<not> (a = 45 \<and> b = 45)) (slugify db t)"
proof -
  let ?f = "filter (\<lambda>c. is_word db c \<or> is_space c \<or> c = 45) (py_lower db t)"
  obtain m n where mn: "strip_hyphens (collapse ?f) = take m (drop n (collapse ?f))"
    using strip_hyphens_take_drop by blast
  have "successively (\<lambda>a b. \<not> (a = 45 \<and> b = 45)) (take m (drop n (collapse ?f)))"
    by (rule successively_take_drop [OF collapse_no_double])
  then have "successively (\<lambda>a b. \<not> (a = 45 \<and> b = 45))
               (take 50 (drop 0 (strip_hyphens (collapse ?f))))"
    unfolding mn by (rule successively_take_drop)
  then show ?thesis by (simp add: slugify_def Let_def)
qed

lemma slug_hd: "slugify db t \<noteq> [] \<Longrightarrow> hd (slugify db t) \<noteq> 45"
proof -
  let ?s = "strip_hyphens (collapse
              (filter (\<lambda>c. is_word db c \<or> is_space c \<or> c = 45) (py_lower db t)))"
  assume "slugify db t \<noteq> []"
  then have ne: "?s \<noteq> []" by (auto simp: slugify_def Let_def)
  then have "hd (take 50 ?s) = hd ?s" by (simp add: hd_take)
  with strip_hyphens_hd [OF ne] show ?thesis by (simp add: slugify_def Let_def)
qed

lemma slug_last:
  assumes "slugify db t \<noteq> []" "last (slugify db t) = 45"
  shows "length (slugify db t) = 50"
proof (rule ccontr)
  let ?s = "strip_hyphens (collapse
              (filter (\<lambda>c. is_word db c \<or> is_space c \<or> c = 45) (py_lower db t)))"
  assume "length (slugify db t) \<noteq> 50"
  then have "length ?s < 50" by (auto simp: slugify_def Let_def min_def split: if_splits)
  then have eq: "slugify db t = ?s" by (simp add: slugify_def Let_def)
  with assms(1) have "?s \<noteq> []" by simp
  then have "last ?s \<noteq> 45" by (rule strip_hyphens_last)
  with assms(2) eq show False by simp
qed

lemma slug_ascii:
  assumes "list_all (\<lambda>c. c < 128) t" "c \<in> set (slugify db t)"
  shows "(48 \<le> c \<and> c \<le> 57) \<or> (97 \<le> c \<and> c \<le> 122) \<or> c = 95 \<or> c = 45"
proof -
  from slug_chars [OF assms(2)]
  consider "c = 45" | "is_word db c" "c \<in> set (py_lower db t)" by blast
  then show ?thesis
  proof cases
    case 1
    then show ?thesis by simp
  next
    case 2
    from 2(2) assms(1) obtain x where x: "x \<in> set t" "c = ascii_lower x"
      by (auto simp: py_lower_def)
    with assms(1) have "x < 128" by (auto simp: list_all_iff)
    with x have "c < 128" "\<not> (65 \<le> c \<and> c \<le> 90)"
      by (auto simp: ascii_lower_def split: if_splits)
    with 2(1) show ?thesis by (auto simp: is_word_def)
  qed
qed

lemma slug_no_double_nth:
  "Suc i < length (slugify db t) \<Longrightarrow>
   \<not> (slugify db t ! i = 45 \<and> slugify db t ! Suc i = 45)"
  using successively_nth [OF slug_no_double, of i db t] by simp

lemma slug_short_last:
  "slugify db t \<noteq> [] \<Longrightarrow> length (slugify db t) < 50 \<Longrightarrow> last (slugify db t) \<noteq> 45"
  using slug_last [of db t] by auto

lemma write_output_result:
  assumes "write_output db fmt netloc url ttl body note ts = Inr (filename, written)"
  shows "(\<exists>slug. filename = strftime_compact fmt ts @ U ''-'' @ slug @ U ''.md''
              \<and> (ttl \<noteq> [] \<longrightarrow> slug = slugify db ttl)
              \<and> (ttl = [] \<longrightarrow> (\<exists>host. netloc url = Inr host \<and> slug = slugify db host)))
         \<and> written = frontmatter fmt url ttl note ts @ body"
  using assms
  by (cases "ttl = []"; cases "netloc url") (auto simp: write_output_def Let_def)

lemma escape_quotes_append:
  "escape_quotes (a @ [34] @ b) = escape_quotes a @ [92, 34] @ escape_quotes b"
  by (simp add: escape_quotes_def)

lemma escape_quotes_plain: "34 \<notin> set n \<Longrightarrow> escape_quotes n = n"
  by (induction n) (auto simp: escape_quotes_def)

lemma hello_world_slug: "slugify db (U ''Hello, World!'') = U ''hello-world''"
  by (simp add: slugify_def py_lower_def ascii_lower_def is_word_def is_space_def is_sep_def
        strip_hyphens_def U_def)

section \<open>Claim on the output writer\<close>

text \<open>
  C8, as the code has it. \<open>write_output\<close> names the file with the compact timestamp, a
  hyphen, a slug of the title (of the host of the URL when the title is empty) and the
  extension, and writes the metadata block followed by the content. The slug has at most 50
  characters; each of them is a hyphen or a word character (alphanumeric or underscore) of
  the lower-cased text that is not whitespace, so for ASCII text a lower-case letter, a
  digit, an underscore or a hyphen; no two hyphens are adjacent; it does not begin with a
  hyphen, and it does not end with one when it is shorter than 50 characters. The block
  has a \<^verbatim>\<open>source_note\<close> line exactly when the note is not empty, with every double quote
  of the note preceded by a backslash. For the title \<^verbatim>\<open>Hello, World!\<close> and no note the
  slug is \<^verbatim>\<open>hello-world\<close> and the block has the line \<^verbatim>\<open>title: Hello, World!\<close> and no
  \<^verbatim>\<open>source_note\<close> line.
\<close>

theorem write_output_naming:
  "(write_output db fmt netloc url ttl body note ts = Inr (filename, written) \<longrightarrow>
      (\<exists>slug. filename = strftime_compact fmt ts @ U ''-'' @ slug @ U ''.md''
             \<and> (ttl \<noteq> [] \<longrightarrow> slug = slugify db ttl)
             \<and> (ttl = [] \<longrightarrow> (\<exists>host. netloc url = Inr host \<and> slug = slugify db host)))
      \<and> written = frontmatter fmt url ttl note ts @ body)
   \<and> length (slugify db t) \<le> 50
   \<and> (\<forall>c \<in> set (slugify db t).
         c = 45 \<or> (is_word db c \<and> \<not> is_space c \<and> c \<in> set (py_lower db t)))
   \<and> (list_all (\<lambda>c. c < 128) t \<longrightarrow>
         (\<forall>c \<in> set (slugify db t).
            (48 \<le> c \<and> c \<le> 57) \<or> (97 \<le> c \<and> c \<le> 122) \<or> c = 95 \<or> c = 45))
   \<and> (\<forall>i. Suc i < length (slugify db t) \<longrightarrow>
         \<not> (slugify db t ! i = 45 \<and> slugify db t ! Suc i = 45))
   \<and> (slugify db t \<noteq> [] \<longrightarrow> hd (slugify db t) \<noteq> 45)
   \<and> (slugify db t \<noteq> [] \<and> length (slugify db t) < 50 \<longrightarrow> last (slugify db t) \<noteq> 45)
   \<and> (note = [] \<longrightarrow>
         frontmatter fmt url ttl note ts
           = U ''---'' @ [NL] @ U ''url: '' @ url @ [NL] @ U ''title: '' @ ttl @ [NL]
             @ U ''fetched_at: '' @ isoformat fmt ts @ [NL] @ U ''---'' @ [NL, NL])
   \<and> (note \<noteq> [] \<longrightarrow>
         frontmatter fmt url ttl note ts
           = U ''---'' @ [NL] @ U ''url: '' @ url @ [NL] @ U ''title: '' @ ttl @ [NL]
             @ U ''fetched_at: '' @ isoformat fmt ts @ [NL]
             @ U ''source_note: '' @ [34] @ escape_quotes note @ [34] @ [NL]
             @ U ''---'' @ [NL, NL])
   \<and> escape_quotes (n1 @ [34] @ n2) = escape_quotes n1 @ [92, 34] @ escape_quotes n2
   \<and> (34 \<notin> set n1 \<longrightarrow> escape_quotes n1 = n1)
   \<and> slugify db (U ''Hello, World!'') = U ''hello-world''
   \<and> frontmatter fmt url (U ''Hello, World!'') [] ts
       = U ''---'' @ [NL] @ U ''url: '' @ url @ [NL] @ U ''title: Hello, World!'' @ [NL]
         @ U ''fetched_at: '' @ isoformat fmt ts @ [NL] @ U ''---'' @ [NL, NL]"
proof (intro conjI impI ballI allI)
  assume "write_output db fmt netloc url ttl body note ts = Inr (filename, written)"
  from write_output_result [OF this]
  show "\<exists>slug. filename = strftime_compact fmt ts @ U ''-'' @ slug @ U ''.md''
             \<and> (ttl \<noteq> [] \<longrightarrow> slug = slugify db ttl)
             \<and> (ttl = [] \<longrightarrow> (\<exists>host. netloc url = Inr host \<and> slug = slugify db host))"
    and "written = frontmatter fmt url ttl note ts @ body"
    by blast+
next
  show "length (slugify db t) \<le> 50" by (rule slug_length)
next
  fix c assume "c \<in> set (slugify db t)"
  then show "c = 45 \<or> (is_word db c \<and> \<not> is_space c \<and> c \<in> set (py_lower db t))"
    by (rule slug_chars)
next
  fix c assume "list_all (\<lambda>c. c < 128) t" "c \<in> set (slugify db t)"
  then show "(48 \<le> c \<and> c \<le> 57) \<or> (97 \<le> c \<and> c \<le> 122) \<or> c = 95 \<or> c = 45"
    by (rule slug_ascii)
next
  fix i assume "Suc i < length (slugify db t)"
  then show "\<not> (slugify db t ! i = 45 \<and> slugify db t ! Suc i = 45)"
    by (rule slug_no_double_nth)
next
  assume "slugify db t \<noteq> []"
  then show "hd (slugify db t) \<noteq> 45" by (rule slug_hd)
next
  assume "slugify db t \<noteq> [] \<and> length (slugify db t) < 50"
  then show "last (slugify db t) \<noteq> 45" using slug_short_last by blast
next
  assume "note = []"
  then show "frontmatter fmt url ttl note ts
           = U ''---'' @ [NL] @ U ''url: '' @ url @ [NL] @ U ''title: '' @ ttl @ [NL]
             @ U ''fetched_at: '' @ isoformat fmt ts @ [NL] @ U ''---'' @ [NL, NL]"
    by (simp add: frontmatter_def)
next
  assume "note \<noteq> []"
  then show "frontmatter fmt url ttl note ts
           = U ''---'' @ [NL] @ U ''url: '' @ url @ [NL] @ U ''title: '' @ ttl @ [NL]
             @ U ''fetched_at: '' @ isoformat fmt ts @ [NL]
             @ U ''source_note: '' @ [34] @ escape_quotes note @ [34] @ [NL]
             @ U ''---'' @ [NL, NL]"
    by (simp add: frontmatter_def)
next
  show "escape_quotes (n1 @ [34] @ n2) = escape_quotes n1 @ [92, 34] @ escape_quotes n2"
    by (rule escape_quotes_append)
next
  assume "34 \<notin> set n1"
  then show "escape_quotes n1 = n1" by (rule escape_quotes_plain)
next
  show "slugify db (U ''Hello, World!'') = U ''hello-world''" by (rule hello_world_slug)
next
  show "frontmatter fmt url (U ''Hello, World!'') [] ts
       = U ''---'' @ [NL] @ U ''url: '' @ url @ [NL] @ U ''title: Hello, World!'' @ [NL]
         @ U ''fetched_at: '' @ isoformat fmt ts @ [NL] @ U ''---'' @ [NL, NL]"
    by (simp add: frontmatter_def U_def)
qed

theorem write_output_naming_witness:
  "write_output ascii_db unary_fmt sample_netloc (U ''https://example.com/x'')
       (U ''Hello, World!'') (U ''body'') [] 3000000
     = Inr (U ''111T-hello-world.md'',
            frontmatter unary_fmt (U ''https://example.com/x'') (U ''Hello, World!'') [] 3000000
              @ U ''body'')
   \<and> U ''Hello, World!'' \<noteq> []
   \<and> (\<exists>slug. U ''111T-hello-world.md''
                = strftime_compact unary_fmt 3000000 @ U ''-'' @ slug @ U ''.md''
            \<and> slug = slugify ascii_db (U ''Hello, World!''))
   \<and> write_output ascii_db unary_fmt sample_netloc (U ''https://example.com/x'')
       [] (U ''body'') (U ''say '' @ [34] @ U ''hi'') 3000000
     = Inr (U ''111T-examplecom.md'',
            frontmatter unary_fmt (U ''https://example.com/x'') []
              (U ''say '' @ [34] @ U ''hi'') 3000000 @ U ''body'')
   \<and> (\<exists>slug host. U ''111T-examplecom.md''
                = strftime_compact unary_fmt 3000000 @ U ''-'' @ slug @ U ''.md''
            \<and> sample_netloc (U ''https://example.com/x'') = Inr host
            \<and> slug = slugify ascii_db host)
   \<and> list_all (\<lambda>c. c < 128) (U ''Hello, World!'')
   \<and> hd (slugify ascii_db (U ''Hello, World!'')) \<in> set (slugify ascii_db (U ''Hello, World!''))
   \<and> ((48 \<le> hd (slugify ascii_db (U ''Hello, World!''))
          \<and> hd (slugify ascii_db (U ''Hello, World!'')) \<le> 57)
        \<or> (97 \<le> hd (slugify ascii_db (U ''Hello, World!''))
          \<and> hd (slugify ascii_db (U ''Hello, World!'')) \<le> 122)
        \<or> hd (slugify ascii_db (U ''Hello, World!'')) = 95
        \<or> hd (slugify ascii_db (U ''Hello, World!'')) = 45)
   \<and> slugify ascii_db (U ''Hello, World!'') \<noteq> []
   \<and> length (slugify ascii_db (U ''Hello, World!'')) < 50
   \<and> hd (slugify ascii_db (U ''Hello, World!'')) \<noteq> 45
   \<and> last (slugify ascii_db (U ''Hello, World!'')) \<noteq> 45
   \<and> U ''say '' @ [34] @ U ''hi'' \<noteq> []
   \<and> frontmatter unary_fmt (U ''https://example.com/x'') [] (U ''say '' @ [34] @ U ''hi'') 3000000
       = U ''---'' @ [NL] @ U ''url: '' @ U ''https://example.com/x'' @ [NL] @ U ''title: '' @ []
         @ [NL] @ U ''fetched_at: '' @ isoformat unary_fmt 3000000 @ [NL]
         @ U ''source_note: '' @ [34] @ escape_quotes (U ''say '' @ [34] @ U ''hi'') @ [34] @ [NL]
         @ U ''---'' @ [NL, NL]
   \<and> 34 \<notin> set (U ''say '') \<and> escape_quotes (U ''say '') = U ''say ''"
proof -
  note T1 = write_output_naming [of ascii_db unary_fmt sample_netloc "U ''https://example.com/x''"
        "U ''Hello, World!''" "U ''body''" "[]" 3000000 "U ''111T-hello-world.md''"
        "frontmatter unary_fmt (U ''https://example.com/x'') (U ''Hello, World!'') [] 3000000
           @ U ''body''"
        "U ''Hello, World!''" "U ''say ''" "U ''hi''"]
  note T2 = write_output_naming [of ascii_db unary_fmt sample_netloc "U ''https://example.com/x''"
        "[]" "U ''body''" "U ''say '' @ [34] @ U ''hi''" 3000000 "U ''111T-examplecom.md''"
        "frontmatter unary_fmt (U ''https://example.com/x'') []
           (U ''say '' @ [34] @ U ''hi'') 3000000 @ U ''body''"
        "U ''Hello, World!''" "U ''say ''" "U ''hi''"]
  have a: "write_output ascii_db unary_fmt sample_netloc (U ''https://example.com/x'')
       (U ''Hello, World!'') (U ''body'') [] 3000000
     = Inr (U ''111T-hello-world.md'',
            frontmatter unary_fmt (U ''https://example.com/x'') (U ''Hello, World!'') [] 3000000
              @ U ''body'')"
    by (simp add: write_output_def hello_world_slug)
       (simp add: unary_fmt_def unary_seconds_def U_def numeral_3_eq_3)
  have s: "slugify ascii_db (U ''Example.com'') = U ''examplecom''"
    by (simp add: slugify_def py_lower_def ascii_lower_def is_word_def is_space_def is_sep_def
        strip_hyphens_def U_def)
  have b: "write_output ascii_db unary_fmt sample_netloc (U ''https://example.com/x'')
       [] (U ''body'') (U ''say '' @ [34] @ U ''hi'') 3000000
     = Inr (U ''111T-examplecom.md'',
            frontmatter unary_fmt (U ''https://example.com/x'') []
              (U ''say '' @ [34] @ U ''hi'') 3000000 @ U ''body'')"
    by (simp add: write_output_def sample_netloc_def s)
       (simp add: unary_fmt_def unary_seconds_def U_def numeral_3_eq_3)
  have c: "list_all (\<lambda>c. c < 128) (U ''Hello, World!'')" by (simp add: U_def)
  have d: "slugify ascii_db (U ''Hello, World!'') \<noteq> []"
    "length (slugify ascii_db (U ''Hello, World!'')) < 50"
    unfolding hello_world_slug by (simp_all add: U_def)
  have e: "U ''say '' @ [34] @ U ''hi'' \<noteq> []" "34 \<notin> set (U ''say '')"
    by (simp_all add: U_def)
  note r1 = T1 [THEN conjunct1, THEN mp, OF a, THEN conjunct1]
  note r2 = T2 [THEN conjunct1, THEN mp, OF b, THEN conjunct1]
  note r4 = T1 [THEN conjunct2, THEN conjunct2, THEN conjunct2, THEN conjunct1, THEN mp, OF c]
  note r6 = T1 [THEN conjunct2, THEN conjunct2, THEN conjunct2, THEN conjunct2, THEN conjunct2,
                THEN conjunct1, THEN mp, OF d(1)]
  note r7 = T1 [THEN conjunct2, THEN conjunct2, THEN conjunct2, THEN conjunct2, THEN conjunct2,
                THEN conjunct2, THEN conjunct1, THEN mp, OF conjI [OF d(1) d(2)]]
  note r9 = T2 [THEN conjunct2, THEN conjunct2, THEN conjunct2, THEN conjunct2, THEN conjunct2,
                THEN conjunct2, THEN conjunct2, THEN conjunct2, THEN conjunct1, THEN mp, OF e(1)]
  note r11 = T1 [THEN conjunct2, THEN conjunct2, THEN conjunct2, THEN conjunct2, THEN conjunct2,
                 THEN conjunct2, THEN conjunct2, THEN conjunct2, THEN conjunct2, THEN conjunct2,
                 THEN conjunct1, THEN mp, OF e(2)]
  have n: "U ''Hello, World!'' \<noteq> []" by (simp add: U_def)
  from r1 n have r1': "\<exists>slug. U ''111T-hello-world.md''
                = strftime_compact unary_fmt 3000000 @ U ''-'' @ slug @ U ''.md''
            \<and> slug = slugify ascii_db (U ''Hello, World!'')"
    by blast
  from r2 have r2': "\<exists>slug host. U ''111T-examplecom.md''
                = strftime_compact unary_fmt 3000000 @ U ''-'' @ slug @ U ''.md''
            \<and> sample_netloc (U ''https://example.com/x'') = Inr host
            \<and> slug = slugify ascii_db host"
    by blast
  have m: "hd (slugify ascii_db (U ''Hello, World!'')) \<in> set (slugify ascii_db (U ''Hello, World!''))"
    using d(1) by (rule hd_in_set)
  note r4' = r4 [THEN bspec, OF m]
  show ?thesis
    by (intro conjI) (rule a n r1' b r2' c m r4' d r6 r7 e r9 r11)+
qed

text \<open>
  C8 as stated fails on a title of 51 characters made of an underscore, 48 letters, a
  hyphen and a letter: the slug keeps the underscore, which is neither alphanumeric nor a
  hyphen, and the cut at 50 characters leaves the hyphen at its end.
\<close>

theorem write_output_naming_counterexample:
  "slugify ascii_db long_title = U ''_aaaaaaaaaaaaaaaaaaaaaaaaaaaaaaaaaaaaaaaaaaaaaaaa-''
   \<and> hd (slugify ascii_db long_title) = 95
   \<and> last (slugify ascii_db long_title) = 45
   \<and> write_output ascii_db unary_fmt sample_netloc (U ''https://example.com/x'')
        long_title [] [] 0
      = Inr (U ''T-_aaaaaaaaaaaaaaaaaaaaaaaaaaaaaaaaaaaaaaaaaaaaaaaa-.md'',
             frontmatter unary_fmt (U ''https://example.com/x'') long_title [] 0)"
proof -
  have s: "slugify ascii_db long_title = U ''_aaaaaaaaaaaaaaaaaaaaaaaaaaaaaaaaaaaaaaaaaaaaaaaa-''"
    by (simp add: long_title_def slugify_def py_lower_def ascii_lower_def is_word_def
          is_space_def is_sep_def strip_hyphens_def U_def)
  have n: "long_title \<noteq> []" by (simp add: long_title_def U_def)
  have f: "strftime_compact unary_fmt 0 = U ''T''"
    by (simp add: unary_fmt_def unary_seconds_def U_def)
  have w: "write_output ascii_db unary_fmt sample_netloc (U ''https://example.com/x'')
        long_title [] [] 0
      = Inr (U ''T'' @ U ''-'' @ U ''_aaaaaaaaaaaaaaaaaaaaaaaaaaaaaaaaaaaaaaaaaaaaaaaa-'' @ U ''.md'',
             frontmatter unary_fmt (U ''https://example.com/x'') long_title [] 0)"
    using n by (simp add: write_output_def s f)
  have h: "hd (U ''_aaaaaaaaaaaaaaaaaaaaaaaaaaaaaaaaaaaaaaaaaaaaaaaa-'') = 95 \<and> last (U ''_aaaaaaaaaaaaaaaaaaaaaaaaaaaaaaaaaaaaaaaaaaaaaaaa-'') = 45"
    by (simp add: U_def)
  have j: "U ''T'' @ U ''-'' @ U ''_aaaaaaaaaaaaaaaaaaaaaaaaaaaaaaaaaaaaaaaaaaaaaaaa-'' @ U ''.md'' = U ''T-_aaaaaaaaaaaaaaaaaaaaaaaaaaaaaaaaaaaaaaaaaaaaaaaa-.md''"
    by (simp add: U_def)
  show ?thesis
    unfolding s w j using h by simp
qed

section \<open>Facts about the queue runner\<close>

lemma write_item_frame:
  "queue_dir (snd (write_item env i url nv r k st)) = queue_dir st
   \<and> files_processed (snd (write_item env i url nv r k st)) = files_processed st
   \<and> n_failed (snd (write_item env i url nv r k st)) = n_failed st
   \<and> fetch_count (snd (write_item env i url nv r k st)) = fetch_count st"
  by (simp add: write_item_def Let_def split: sum.splits prod.splits)

lemma fetch_item_frame:
  "queue_dir (snd (fetch_item env i url nv st)) = queue_dir st
   \<and> files_processed (snd (fetch_item env i url nv st)) = files_processed st
   \<and> n_failed st \<le> n_failed (snd (fetch_item env i url nv st))
   \<and> fetch_count (snd (fetch_item env i url nv st)) = Suc (fetch_count st)"
proof (cases "fetch_url (env_db env) (world_at env (fetch_count st)) url")
  case (Inl e)
  then show ?thesis by (simp add: fetch_item_def Let_def)
next
  case (Inr p)
  obtain r calls where p: "p = (r, calls)" by (cases p)
  show ?thesis
    using Inr p
      write_item_frame [of env i url nv r "fetch_count st" "st\<lparr>fetch_count := Suc (fetch_count st)\<rparr>"]
    by (cases "success r") (simp_all add: fetch_item_def Let_def)
qed

lemma process_item_frame:
  "queue_dir (snd (process_item env i item st)) = queue_dir st
   \<and> files_processed (snd (process_item env i item st)) = files_processed st
   \<and> n_failed st \<le> n_failed (snd (process_item env i item st))
   \<and> fetch_count st \<le> fetch_count (snd (process_item env i item st))"
proof (cases "truthy (item_url item)")
  case False
  then show ?thesis by (simp add: process_item_def)
next
  case True
  show ?thesis
  proof (cases "item_url item")
    case (JStr url)
    with True fetch_item_frame [of env i url "item_note item" st] show ?thesis
      by (simp add: process_item_def)
  qed (use True in \<open>simp_all add: process_item_def\<close>)
qed

lemma process_items_frame:
  "queue_dir (snd (process_items env i items st)) = queue_dir st
   \<and> files_processed (snd (process_items env i items st)) = files_processed st
   \<and> n_failed st \<le> n_failed (snd (process_items env i items st))"
proof (induction items arbitrary: i st)
  case Nil
  show ?case by simp
next
  case (Cons item items)
  obtain err st1 where p: "process_item env i item st = (err, st1)"
    by (cases "process_item env i item st")
  have f: "queue_dir st1 = queue_dir st" "files_processed st1 = files_processed st"
    "n_failed st \<le> n_failed st1"
    using process_item_frame [of env i item st] p by simp_all
  show ?case
  proof (cases err)
    case (Some e)
    with p f show ?thesis by simp
  next
    case None
    with p f Cons.IH [of "Suc i" st1] show ?thesis by simp
  qed
qed

lemma process_file_nothing:
  assumes "snd f = Unreadable
           \<or> (\<exists>tx. snd f = Readable tx \<and> parse_input_file (env_loads env) tx = Inr [])"
  shows "process_file env f st = st\<lparr>n_failed := Suc (n_failed st)\<rparr>"
  using assms
proof
  assume "snd f = Unreadable"
  then show ?thesis by (simp add: process_file_def)
next
  assume "\<exists>tx. snd f = Readable tx \<and> parse_input_file (env_loads env) tx = Inr []"
  then obtain tx where "snd f = Readable tx" "parse_input_file (env_loads env) tx = Inr []"
    by blast
  then show ?thesis by (simp add: process_file_def)
qed

lemma process_file_frame:
  "n_failed st \<le> n_failed (process_file env g st)
   \<and> (queue_dir (process_file env g st) = queue_dir st
      \<and> files_processed (process_file env g st) = files_processed st
     \<or> queue_dir (process_file env g st) = filter (\<lambda>f. fst f \<noteq> fst g) (queue_dir st)
      \<and> files_processed (process_file env g st) = files_processed st @ [fst g])"
proof (cases "snd g")
  case NotAFile
  then show ?thesis by (simp add: process_file_def)
next
  case Unreadable
  then show ?thesis by (simp add: process_file_def)
next
  case (Readable tx)
  show ?thesis
  proof (cases "parse_input_file (env_loads env) tx")
    case (Inl e)
    with Readable show ?thesis by (simp add: process_file_def)
  next
    case (Inr urls)
    obtain err st1 where p: "process_items env 0 urls st = (err, st1)"
      by (cases "process_items env 0 urls st")
    have f: "queue_dir st1 = queue_dir st" "files_processed st1 = files_processed st"
      "n_failed st \<le> n_failed st1"
      using process_items_frame [of env 0 urls st] p by simp_all
    have pf: "process_file env g st =
        (if urls = [] then st\<lparr>n_failed := Suc (n_failed st)\<rparr>
         else (case err of
                 Some e \<Rightarrow> st1\<lparr>n_failed := Suc (n_failed st1)\<rparr>
               | None \<Rightarrow>
                   st1\<lparr>queue_dir := filter (\<lambda>f. fst f \<noteq> fst g) (queue_dir st1),
                       files_processed := files_processed st1 @ [fst g]\<rparr>))"
      by (simp add: process_file_def Readable Inr p)
    show ?thesis
    proof (cases "urls = []")
      case True
      then show ?thesis unfolding pf by simp
    next
      case False
      show ?thesis
      proof (cases err)
        case None
        with False f show ?thesis unfolding pf by simp
      next
        case (Some e)
        with False f show ?thesis unfolding pf by simp
      qed
    qed
  qed
qed

lemma run_keeps_failed_file:
  assumes "snd f = Unreadable
           \<or> (\<exists>tx. snd f = Readable tx \<and> parse_input_file (env_loads env) tx = Inr [])"
    and "\<forall>g \<in> set gs. g \<noteq> f \<longrightarrow> fst g \<noteq> fst f"
    and "f \<in> set (queue_dir st)" "fst f \<notin> set (files_processed st)"
  shows "f \<in> set (queue_dir (foldl (\<lambda>st g. process_file env g st) st gs))
         \<and> fst f \<notin> set (files_processed (foldl (\<lambda>st g. process_file env g st) st gs))"
  using assms(2-4)
proof (induction gs arbitrary: st)
  case Nil
  then show ?case by simp
next
  case (Cons g gs)
  have "f \<in> set (queue_dir (process_file env g st))
        \<and> fst f \<notin> set (files_processed (process_file env g st))"
  proof (cases "g = f")
    case True
    with Cons.prems process_file_nothing [OF assms(1), of st] show ?thesis by simp
  next
    case False
    with Cons.prems(1) have "fst g \<noteq> fst f" by simp
    with Cons.prems(2,3) process_file_frame [of st env g] show ?thesis by auto
  qed
  moreover have "\<forall>g \<in> set gs. g \<noteq> f \<longrightarrow> fst g \<noteq> fst f"
    using Cons.prems(1) by simp
  ultimately show ?case using Cons.IH [of "process_file env g st"] by simp
qed

lemma run_counts_failed_files:
  "n_failed st
     + length (filter (\<lambda>f. snd f = Unreadable
                 \<or> (\<exists>tx. snd f = Readable tx \<and> parse_input_file (env_loads env) tx = Inr []))
               gs)
   \<le> n_failed (foldl (\<lambda>st g. process_file env g st) st gs)"
proof (induction gs arbitrary: st)
  case Nil
  show ?case by simp
next
  case (Cons g gs)
  let ?bad = "\<lambda>f. snd f = Unreadable
                 \<or> (\<exists>tx. snd f = Readable tx \<and> parse_input_file (env_loads env) tx = Inr [])"
  have any: "n_failed st \<le> n_failed (process_file env g st)"
    using process_file_frame [of st env g] by blast
  have ih: "n_failed (process_file env g st) + length (filter ?bad gs)
          \<le> n_failed (foldl (\<lambda>st g. process_file env g st) (process_file env g st) gs)"
    by (rule Cons.IH)
  show ?case
  proof (cases "?bad g")
    case True
    then have "process_file env g st = st\<lparr>n_failed := Suc (n_failed st)\<rparr>"
      by (rule process_file_nothing)
    then have "n_failed (process_file env g st) = Suc (n_failed st)" by simp
    moreover have "filter ?bad (g # gs) = g # filter ?bad gs"
      using True by (simp only: filter.simps if_True)
    ultimately show ?thesis using ih by simp
  next
    case False
    then have "filter ?bad (g # gs) = filter ?bad gs"
      by (simp only: filter.simps if_False)
    then show ?thesis using ih any by simp
  qed
qed

lemma distinct_names_separate:
  assumes "distinct (map fst entries)" "f \<in> set entries"
  shows "\<forall>g \<in> set (queue_files entries). g \<noteq> f \<longrightarrow> fst g \<noteq> fst f"
proof (intro ballI impI)
  fix g assume "g \<in> set (queue_files entries)" "g \<noteq> f"
  then have "g \<in> set entries" by (simp add: queue_files_def)
  with assms \<open>g \<noteq> f\<close> show "fst g \<noteq> fst f"
    by (meson distinct_map inj_onD)
qed

lemma nothing_here_has_no_url:
  "parse_input_file sample_loads (U ''nothing here'') = Inr []"
  by (simp add: parse_input_file_def json_form_def line_item_def list_match_def py_strip_def
        is_space_def url_match_def strip_scheme_def sample_loads_def url_array_text_def
        NL_def U_def)

section \<open>Facts about the timestamps of a batch\<close>

lemma item_timestamp_eq: "item_timestamp env i k = clock_at env k + int i * 1000000"
  by (simp add: item_timestamp_def Let_def)

lemma write_item_writes:
  "writes (snd (write_item env i url nv r k st)) = writes st
   \<or> (\<exists>slug body.
         writes (snd (write_item env i url nv r k st))
           = writes st @ [(item_timestamp env i k,
                           strftime_compact (env_fmt env) (item_timestamp env i k)
                             @ U ''-'' @ slug @ U ''.md'',
                           body)])"
proof (cases "write_output (env_db env) (env_fmt env) (urlparse_netloc (world_at env k)) url
               (title r) (content r) (note_text nv) (item_timestamp env i k)")
  case (Inl e)
  then show ?thesis by (simp add: write_item_def Let_def)
next
  case (Inr p)
  obtain filename body where p: "p = (filename, body)" by (cases p)
  from write_output_result [OF Inr [unfolded p]]
  obtain slug where "filename = strftime_compact (env_fmt env) (item_timestamp env i k)
                                  @ U ''-'' @ slug @ U ''.md''"
    by blast
  with Inr p show ?thesis
    by (cases "note_raises nv") (simp_all add: write_item_def Let_def)
qed

lemma fetch_item_writes:
  "writes (snd (fetch_item env i url nv st)) = writes st
   \<or> (\<exists>slug body.
         writes (snd (fetch_item env i url nv st))
           = writes st @ [(item_timestamp env i (fetch_count st),
                           strftime_compact (env_fmt env) (item_timestamp env i (fetch_count st))
                             @ U ''-'' @ slug @ U ''.md'',
                           body)])"
proof (cases "fetch_url (env_db env) (world_at env (fetch_count st)) url")
  case (Inl e)
  then show ?thesis by (simp add: fetch_item_def Let_def)
next
  case (Inr p)
  obtain r calls where p: "p = (r, calls)" by (cases p)
  show ?thesis
  proof (cases "success r")
    case False
    with Inr p show ?thesis by (simp add: fetch_item_def Let_def)
  next
    case True
    with Inr p have "fetch_item env i url nv st
        = write_item env i url nv r (fetch_count st) (st\<lparr>fetch_count := Suc (fetch_count st)\<rparr>)"
      by (simp add: fetch_item_def Let_def)
    then show ?thesis
      using write_item_writes [of env i url nv r "fetch_count st"
              "st\<lparr>fetch_count := Suc (fetch_count st)\<rparr>"]
      by simp
  qed
qed

lemma process_item_writes:
  "writes (snd (process_item env i item st)) = writes st
   \<or> (\<exists>slug body.
         writes (snd (process_item env i item st))
           = writes st @ [(item_timestamp env i (fetch_count st),
                           strftime_compact (env_fmt env) (item_timestamp env i (fetch_count st))
                             @ U ''-'' @ slug @ U ''.md'',
                           body)])"
proof (cases "truthy (item_url item)")
  case False
  then show ?thesis by (simp add: process_item_def)
next
  case True
  show ?thesis
  proof (cases "item_url item")
    case (JStr url)
    with True fetch_item_writes [of env i url "item_note item" st] show ?thesis
      by (simp add: process_item_def)
  qed (use True in \<open>simp_all add: process_item_def\<close>)
qed

lemma process_items_writes:
  assumes "mono (clock_at env)"
  shows "\<exists>news. writes (snd (process_items env i items st)) = writes st @ news
           \<and> (\<forall>r \<in> set news.
                 clock_at env (fetch_count st) + int i * 1000000 \<le> fst r
                 \<and> (\<exists>slug. fst (snd r)
                       = strftime_compact (env_fmt env) (fst r) @ U ''-'' @ slug @ U ''.md''))
           \<and> sorted_wrt (\<lambda>a b. fst a + 1000000 \<le> fst b) news"
proof (induction items arbitrary: i st)
  case Nil
  show ?case by simp
next
  case (Cons item items)
  obtain err st1 where p: "process_item env i item st = (err, st1)"
    by (cases "process_item env i item st")
  let ?ts = "item_timestamp env i (fetch_count st)"
  have fc: "fetch_count st \<le> fetch_count st1"
    using process_item_frame [of env i item st] p by simp
  from process_item_writes [of env i item st] p
  obtain new1 where w1: "writes st1 = writes st @ new1"
    and n1: "new1 = [] \<or> (\<exists>slug body. new1 = [(?ts,
               strftime_compact (env_fmt env) ?ts @ U ''-'' @ slug @ U ''.md'', body)])"
    by auto
  have b1: "\<forall>r \<in> set new1. fst r = clock_at env (fetch_count st) + int i * 1000000
              \<and> (\<exists>slug. fst (snd r)
                    = strftime_compact (env_fmt env) (fst r) @ U ''-'' @ slug @ U ''.md'')"
    using n1 by (auto simp: item_timestamp_eq)
  have s1: "sorted_wrt (\<lambda>a b. fst a + 1000000 \<le> fst b) new1"
    using n1 by auto
  show ?case
  proof (cases err)
    case (Some e)
    with p have "process_items env i (item # items) st = (Some e, st1)" by simp
    with w1 b1 s1 show ?thesis by auto
  next
    case None
    with p have eq: "process_items env i (item # items) st = process_items env (Suc i) items st1"
      by simp
    from Cons.IH [of "Suc i" st1]
    obtain news2 where w2: "writes (snd (process_items env (Suc i) items st1)) = writes st1 @ news2"
      and b2: "\<forall>r \<in> set news2.
                 clock_at env (fetch_count st1) + int (Suc i) * 1000000 \<le> fst r
                 \<and> (\<exists>slug. fst (snd r)
                       = strftime_compact (env_fmt env) (fst r) @ U ''-'' @ slug @ U ''.md'')"
      and s2: "sorted_wrt (\<lambda>a b. fst a + 1000000 \<le> fst b) news2"
      by blast
    have m: "clock_at env (fetch_count st) \<le> clock_at env (fetch_count st1)"
      using assms fc by (rule monoD)
    have gap: "\<forall>a \<in> set new1. \<forall>b \<in> set news2. fst a + 1000000 \<le> fst b"
    proof (intro ballI)
      fix a b assume "a \<in> set new1" "b \<in> set news2"
      with b1 b2 have "fst a = clock_at env (fetch_count st) + int i * 1000000"
        "clock_at env (fetch_count st1) + int (Suc i) * 1000000 \<le> fst b"
        by auto
      with m show "fst a + 1000000 \<le> fst b" by simp
    qed
    have low: "\<forall>r \<in> set news2. clock_at env (fetch_count st) + int i * 1000000 \<le> fst r"
    proof
      fix r assume "r \<in> set news2"
      with b2 have "clock_at env (fetch_count st1) + int (Suc i) * 1000000 \<le> fst r" by auto
      with m show "clock_at env (fetch_count st) + int i * 1000000 \<le> fst r" by simp
    qed
    have "writes (snd (process_items env i (item # items) st)) = writes st @ (new1 @ news2)"
      unfolding eq w2 w1 by simp
    moreover have "\<forall>r \<in> set (new1 @ news2).
                 clock_at env (fetch_count st) + int i * 1000000 \<le> fst r
                 \<and> (\<exists>slug. fst (snd r)
                       = strftime_compact (env_fmt env) (fst r) @ U ''-'' @ slug @ U ''.md'')"
      using b1 b2 low by auto
    moreover have "sorted_wrt (\<lambda>a b. fst a + 1000000 \<le> fst b) (new1 @ news2)"
      using s1 s2 gap by (simp add: sorted_wrt_append)
    ultimately show ?thesis by blast
  qed
qed

lemma distinct_map_if_sorted_wrt:
  "sorted_wrt (\<lambda>a b. g a \<noteq> g b) xs \<Longrightarrow> distinct (map g xs)"
  by (induction xs) auto

lemma names_differ:
  assumes sep: "\<forall>t t'. prefix (strftime_compact fmt t) (strftime_compact fmt t')
                  \<longrightarrow> t div 1000000 = t' div 1000000"
    and gap: "ta + 1000000 \<le> (tb :: int)"
  shows "strftime_compact fmt ta @ x \<noteq> strftime_compact fmt tb @ y"
proof
  assume eq: "strftime_compact fmt ta @ x = strftime_compact fmt tb @ y"
  have "prefix (strftime_compact fmt ta) (strftime_compact fmt ta @ x)" by simp
  moreover have "prefix (strftime_compact fmt tb) (strftime_compact fmt ta @ x)"
    unfolding eq by simp
  ultimately have "prefix (strftime_compact fmt ta) (strftime_compact fmt tb)
                   \<or> prefix (strftime_compact fmt tb) (strftime_compact fmt ta)"
    by (rule prefix_same_cases)
  with sep have "ta div 1000000 = tb div 1000000" by metis
  moreover have "ta div 1000000 < tb div 1000000"
  proof -
    have "ta div 1000000 + 1 = (ta + 1000000) div 1000000" by simp
    also have "\<dots> \<le> tb div 1000000" using gap by (rule zdiv_mono1) simp
    finally show ?thesis by simp
  qed
  ultimately show False by simp
qed

lemma batch_names_distinct:
  assumes "mono (clock_at env)"
    and "\<forall>t t'. prefix (strftime_compact (env_fmt env) t) (strftime_compact (env_fmt env) t')
            \<longrightarrow> t div 1000000 = t' div 1000000"
  shows "\<exists>news. writes (snd (process_items env 0 items st)) = writes st @ news
           \<and> sorted_wrt (\<lambda>a b. fst a + 1000000 \<le> fst b) news
           \<and> distinct (map (\<lambda>r. fst (snd r)) news)"
proof -
  from process_items_writes [OF assms(1), of 0 items st]
  obtain news where w: "writes (snd (process_items env 0 items st)) = writes st @ news"
    and b: "\<forall>r \<in> set news. \<exists>slug. fst (snd r)
               = strftime_compact (env_fmt env) (fst r) @ U ''-'' @ slug @ U ''.md''"
    and s: "sorted_wrt (\<lambda>a b. fst a + 1000000 \<le> fst b) news"
    by blast
  have "sorted_wrt (\<lambda>a b. fst (snd a) \<noteq> fst (snd b)) news"
  proof (rule sorted_wrt_mono_rel [OF _ s])
    fix a b assume ab: "a \<in> set news" "b \<in> set news" "fst a + 1000000 \<le> fst b"
    from b ab obtain sa sb where
      "fst (snd a) = strftime_compact (env_fmt env) (fst a) @ U ''-'' @ sa @ U ''.md''"
      "fst (snd b) = strftime_compact (env_fmt env) (fst b) @ U ''-'' @ sb @ U ''.md''"
      by blast
    with names_differ [OF assms(2) ab(3)] show "fst (snd a) \<noteq> fst (snd b)" by simp
  qed
  then have "distinct (map (\<lambda>r. fst (snd r)) news)"
    by (rule distinct_map_if_sorted_wrt)
  with w s show ?thesis by blast
qed

section \<open>Facts about the sample run\<close>

lemma replicate_closed_prefix:
  "a \<noteq> b \<Longrightarrow> prefix (replicate m a @ [b]) (replicate n a @ [b]) \<Longrightarrow> m = n"
proof (induction m arbitrary: n)
  case 0
  show ?case
  proof (cases n)
    case 0
    then show ?thesis by simp
  next
    case (Suc k)
    with "0.prems" show ?thesis by (simp del: prefix_snoc)
  qed
next
  case (Suc m)
  show ?case
  proof (cases n)
    case 0
    with Suc.prems show ?thesis by (simp del: prefix_snoc)
  next
    case (Suc k)
    with Suc.prems have "prefix (replicate m a @ [b]) (replicate k a @ [b])"
      by (simp del: prefix_snoc)
    with Suc.prems(1) have "m = k" by (rule Suc.IH)
    with Suc show ?thesis by simp
  qed
qed

lemma unary_seconds_separates:
  fixes a b :: int
  assumes "prefix ((if 0 \<le> t then replicate (nat a) 49 else 45 # replicate (nat (- a)) 49) @ [84])
                  ((if 0 \<le> t' then replicate (nat b) (49 :: nat)
                    else 45 # replicate (nat (- b)) 49) @ [84])"
    and "0 \<le> t \<longleftrightarrow> 0 \<le> a" "0 \<le> t' \<longleftrightarrow> 0 \<le> b"
  shows "a = b"
proof -
  have mixed1: "\<not> prefix (45 # replicate m 49 @ [84]) (replicate n (49 :: nat) @ [84])"
    for m n :: nat
    by (cases n) auto
  have mixed2: "\<not> prefix (replicate n 49 @ [84]) (45 # replicate m (49 :: nat) @ [84])"
    for m n :: nat
    by (cases n) auto
  show ?thesis
  proof (cases "0 \<le> t")
    case True
    note t = True
    show ?thesis
    proof (cases "0 \<le> t'")
      case True
      with t assms(1) have "prefix (replicate (nat a) (49 :: nat) @ [84]) (replicate (nat b) 49 @ [84])"
        by (simp del: prefix_snoc)
      then have "nat a = nat b"
        by (intro replicate_closed_prefix [of 49 84]) simp_all
      with t True assms(2,3) show ?thesis by simp
    next
      case False
      with t assms(1) mixed2 show ?thesis by (simp del: prefix_snoc)
    qed
  next
    case False
    note t = False
    show ?thesis
    proof (cases "0 \<le> t'")
      case True
      with t assms(1) mixed1 show ?thesis by (simp del: prefix_snoc)
    next
      case False
      with t assms(1)
      have "prefix (replicate (nat (- a)) (49 :: nat) @ [84]) (replicate (nat (- b)) 49 @ [84])"
        by (simp del: prefix_snoc)
      then have "nat (- a) = nat (- b)"
        by (intro replicate_closed_prefix [of 49 84]) simp_all
      with t False assms(2,3) show ?thesis by simp
    qed
  qed
qed

lemma unary_fmt_separates:
  "prefix (strftime_compact unary_fmt t) (strftime_compact unary_fmt t')
   \<Longrightarrow> t div 1000000 = t' div 1000000"
proof (rule unary_seconds_separates [of t _ t'])
  assume "prefix (strftime_compact unary_fmt t) (strftime_compact unary_fmt t')"
  then show "prefix ((if 0 \<le> t then replicate (nat (t div 1000000)) 49
                      else 45 # replicate (nat (- (t div 1000000))) 49) @ [84])
                  ((if 0 \<le> t' then replicate (nat (t' div 1000000)) (49 :: nat)
                    else 45 # replicate (nat (- (t' div 1000000))) 49) @ [84])"
    by (simp add: unary_fmt_def unary_seconds_def del: prefix_snoc)
next
  show "0 \<le> t \<longleftrightarrow> 0 \<le> t div 1000000" by (simp add: pos_imp_zdiv_nonneg_iff)
next
  show "0 \<le> t' \<longleftrightarrow> 0 \<le> t' div 1000000" by (simp add: pos_imp_zdiv_nonneg_iff)
qed

lemma sample_clock_mono: "mono (clock_at sample_env)"
  by (simp add: mono_def sample_env_def)

lemma sample_env_fields:
  "env_db sample_env = ascii_db" "env_fmt sample_env = unary_fmt"
  "env_loads sample_env = sample_loads" "world_at sample_env k = article_world"
  by (simp_all add: sample_env_def)

lemma article_jina:
  "fetch_via_jina article_world url
     = \<lparr>success = True, title = U ''Hello'', content = U ''# Hello'', error = None\<rparr>"
  by (simp add: fetch_via_jina_def article_world_def is_login_page_def
        LOGIN_PAGE_INDICATORS_def heading_at_def py_strip_def is_space_def NL_def U_def)

lemma article_fetch_url:
  "\<not> needs_js_rendering url \<Longrightarrow>
   fetch_url ascii_db article_world url
     = Inr (\<lparr>success = True, title = U ''Hello'', content = U ''# Hello'', error = None\<rparr>,
            [Jina])"
  unfolding fetch_url_cases article_jina by simp

lemma hello_slug: "slugify ascii_db (U ''Hello'') = U ''hello''"
  by (simp add: slugify_def py_lower_def ascii_lower_def is_word_def is_space_def is_sep_def
        strip_hyphens_def U_def)

lemma sample_process_item:
  assumes "\<not> needs_js_rendering url" "url \<noteq> []"
  shows "fst (process_item sample_env i \<lparr>item_url = JStr url, item_note = JStr n\<rparr> st) = None
     \<and> fetch_count (snd (process_item sample_env i \<lparr>item_url = JStr url, item_note = JStr n\<rparr> st))
         = Suc (fetch_count st)
     \<and> map (\<lambda>r. (fst r, fst (snd r)))
           (writes (snd (process_item sample_env i \<lparr>item_url = JStr url, item_note = JStr n\<rparr> st)))
         = map (\<lambda>r. (fst r, fst (snd r))) (writes st)
           @ [(item_timestamp sample_env i (fetch_count st),
               strftime_compact unary_fmt (item_timestamp sample_env i (fetch_count st))
                 @ U ''-hello.md'')]
     \<and> n_success (snd (process_item sample_env i \<lparr>item_url = JStr url, item_note = JStr n\<rparr> st))
         = Suc (n_success st)
     \<and> n_failed (snd (process_item sample_env i \<lparr>item_url = JStr url, item_note = JStr n\<rparr> st))
         = n_failed st
     \<and> queue_dir (snd (process_item sample_env i \<lparr>item_url = JStr url, item_note = JStr n\<rparr> st))
         = queue_dir st
     \<and> files_processed
           (snd (process_item sample_env i \<lparr>item_url = JStr url, item_note = JStr n\<rparr> st))
         = files_processed st"
proof -
  have w: "write_output ascii_db unary_fmt (urlparse_netloc article_world) url (U ''Hello'')
             (U ''# Hello'') n ts
           = Inr (strftime_compact unary_fmt ts @ U ''-hello.md'',
                  frontmatter unary_fmt url (U ''Hello'') n ts @ U ''# Hello'')" for ts
    by (simp add: write_output_def hello_slug) (simp add: U_def)
  have f: "fetch_item sample_env i url (JStr n) st
      = (None, st\<lparr>fetch_count := Suc (fetch_count st),
                    writes := writes st @ [(item_timestamp sample_env i (fetch_count st),
                       strftime_compact unary_fmt (item_timestamp sample_env i (fetch_count st))
                         @ U ''-hello.md'',
                       frontmatter unary_fmt url (U ''Hello'') n
                         (item_timestamp sample_env i (fetch_count st)) @ U ''# Hello'')],
                    n_success := Suc (n_success st)\<rparr>)"
    by (simp add: fetch_item_def write_item_def Let_def sample_env_fields
          article_fetch_url [OF assms(1)] w note_text_def note_raises_def)
  have pe: "process_item sample_env i \<lparr>item_url = JStr url, item_note = JStr n\<rparr> st
          = fetch_item sample_env i url (JStr n) st"
    using assms(2) by (simp add: process_item_def truthy_def)
  show ?thesis unfolding pe f by simp
qed

lemma one_url_parse:
  "parse_input_file sample_loads (U ''https://example.com/c'') = Inr one_url_items"
  by (simp add: parse_input_file_def json_form_def line_item_def list_match_def py_strip_def
        is_space_def url_match_def strip_scheme_def sample_loads_def one_url_items_def
        NL_def U_def)

lemma sample_urls_plain:
  "\<not> needs_js_rendering (U ''https://example.com/a'') \<and> U ''https://example.com/a'' \<noteq> []"
  "\<not> needs_js_rendering (U ''https://example.com/b'') \<and> U ''https://example.com/b'' \<noteq> []"
  "\<not> needs_js_rendering (U ''https://example.com/c'') \<and> U ''https://example.com/c'' \<noteq> []"
  by (simp_all add: needs_js_rendering_def JS_REQUIRED_PATTERNS_def U_def)

lemma sample_timestamps:
  "item_timestamp sample_env 0 0 = 0" "item_timestamp sample_env (Suc 0) (Suc 0) = 1000000"
  "item_timestamp sample_env 0 (Suc (Suc 0)) = 1000000"
  "item_timestamp sample_env 0 (Suc (Suc (Suc 0))) = 1000000"
  by (simp_all add: item_timestamp_def sample_env_def)

lemma sample_stamps:
  "strftime_compact unary_fmt 0 = U ''T''" "strftime_compact unary_fmt 1000000 = U ''1T''"
  by (simp_all add: unary_fmt_def unary_seconds_def U_def)

lemma sample_one_url_items:
  "fst (process_items sample_env 0 one_url_items st) = None
   \<and> fetch_count (snd (process_items sample_env 0 one_url_items st)) = Suc (fetch_count st)
   \<and> map (\<lambda>r. (fst r, fst (snd r))) (writes (snd (process_items sample_env 0 one_url_items st)))
       = map (\<lambda>r. (fst r, fst (snd r))) (writes st)
         @ [(item_timestamp sample_env 0 (fetch_count st),
             strftime_compact unary_fmt (item_timestamp sample_env 0 (fetch_count st))
               @ U ''-hello.md'')]
   \<and> n_failed (snd (process_items sample_env 0 one_url_items st)) = n_failed st
   \<and> queue_dir (snd (process_items sample_env 0 one_url_items st)) = queue_dir st
   \<and> files_processed (snd (process_items sample_env 0 one_url_items st)) = files_processed st"
proof -
  let ?c = "\<lparr>item_url = JStr (U ''https://example.com/c''), item_note = JStr []\<rparr>"
  obtain e1 s1 where p1: "process_item sample_env 0 ?c st = (e1, s1)"
    by (cases "process_item sample_env 0 ?c st")
  from sample_process_item [of "U ''https://example.com/c''" 0 "[]" st] sample_urls_plain(3) p1
  have f1: "e1 = None" "fetch_count s1 = Suc (fetch_count st)"
    "map (\<lambda>r. (fst r, fst (snd r))) (writes s1)
       = map (\<lambda>r. (fst r, fst (snd r))) (writes st)
         @ [(item_timestamp sample_env 0 (fetch_count st),
             strftime_compact unary_fmt (item_timestamp sample_env 0 (fetch_count st))
               @ U ''-hello.md'')]"
    "n_failed s1 = n_failed st" "queue_dir s1 = queue_dir st"
    "files_processed s1 = files_processed st"
    by simp_all
  have "process_items sample_env 0 one_url_items st = (None, s1)"
    using p1 f1(1) by (simp add: one_url_items_def)
  with f1 show ?thesis by simp
qed

lemma sample_two_bullet_items:
  "fst (process_items sample_env 0 two_bullet_items st) = None
   \<and> fetch_count (snd (process_items sample_env 0 two_bullet_items st)) = Suc (Suc (fetch_count st))
   \<and> map (\<lambda>r. (fst r, fst (snd r)))
         (writes (snd (process_items sample_env 0 two_bullet_items st)))
       = map (\<lambda>r. (fst r, fst (snd r))) (writes st)
         @ [(item_timestamp sample_env 0 (fetch_count st),
             strftime_compact unary_fmt (item_timestamp sample_env 0 (fetch_count st))
               @ U ''-hello.md''),
            (item_timestamp sample_env (Suc 0) (Suc (fetch_count st)),
             strftime_compact unary_fmt (item_timestamp sample_env (Suc 0) (Suc (fetch_count st)))
               @ U ''-hello.md'')]
   \<and> n_failed (snd (process_items sample_env 0 two_bullet_items st)) = n_failed st
   \<and> queue_dir (snd (process_items sample_env 0 two_bullet_items st)) = queue_dir st
   \<and> files_processed (snd (process_items sample_env 0 two_bullet_items st)) = files_processed st"
proof -
  let ?a = "\<lparr>item_url = JStr (U ''https://example.com/a''), item_note = JStr (U ''first'')\<rparr>"
  let ?b = "\<lparr>item_url = JStr (U ''https://example.com/b''), item_note = JStr []\<rparr>"
  obtain e1 s1 where p1: "process_item sample_env 0 ?a st = (e1, s1)"
    by (cases "process_item sample_env 0 ?a st")
  from sample_process_item [of "U ''https://example.com/a''" 0 "U ''first''" st]
    sample_urls_plain(1) p1
  have f1: "e1 = None" "fetch_count s1 = Suc (fetch_count st)"
    "map (\<lambda>r. (fst r, fst (snd r))) (writes s1)
       = map (\<lambda>r. (fst r, fst (snd r))) (writes st)
         @ [(item_timestamp sample_env 0 (fetch_count st),
             strftime_compact unary_fmt (item_timestamp sample_env 0 (fetch_count st))
               @ U ''-hello.md'')]"
    "n_failed s1 = n_failed st" "queue_dir s1 = queue_dir st"
    "files_processed s1 = files_processed st"
    by simp_all
  obtain e2 s2 where p2: "process_item sample_env (Suc 0) ?b s1 = (e2, s2)"
    by (cases "process_item sample_env (Suc 0) ?b s1")
  from sample_process_item [of "U ''https://example.com/b''" "Suc 0" "[]" s1]
    sample_urls_plain(2) p2
  have f2: "e2 = None" "fetch_count s2 = Suc (fetch_count s1)"
    "map (\<lambda>r. (fst r, fst (snd r))) (writes s2)
       = map (\<lambda>r. (fst r, fst (snd r))) (writes s1)
         @ [(item_timestamp sample_env (Suc 0) (fetch_count s1),
             strftime_compact unary_fmt (item_timestamp sample_env (Suc 0) (fetch_count s1))
               @ U ''-hello.md'')]"
    "n_failed s2 = n_failed s1" "queue_dir s2 = queue_dir s1"
    "files_processed s2 = files_processed s1"
    by simp_all
  have "process_items sample_env 0 two_bullet_items st = (None, s2)"
    using p1 f1(1) p2 f2(1) by (simp add: two_bullet_items_def)
  with f1 f2 show ?thesis by simp
qed

lemma sample_process_file:
  assumes "parse_input_file sample_loads tx = Inr items" "items \<noteq> []"
    and "fst (process_items sample_env 0 items st) = None"
  shows "process_file sample_env (name, Readable tx) st
           = (snd (process_items sample_env 0 items st))
               \<lparr>queue_dir := filter (\<lambda>f. fst f \<noteq> name)
                                (queue_dir (snd (process_items sample_env 0 items st))),
                files_processed := files_processed (snd (process_items sample_env 0 items st))
                                   @ [name]\<rparr>"
proof -
  obtain e s where p: "process_items sample_env 0 items st = (e, s)"
    by (cases "process_items sample_env 0 items st")
  with assms(3) have "e = None" by simp
  with p assms(1,2) show ?thesis
    by (simp add: process_file_def sample_env_fields)
qed

lemma process_file_deletes_only_clean:
  assumes "queue_dir (process_file env f st) \<noteq> queue_dir st
           \<or> files_processed (process_file env f st) \<noteq> files_processed st"
  shows "\<exists>tx urls st1. snd f = Readable tx
           \<and> parse_input_file (env_loads env) tx = Inr urls \<and> urls \<noteq> []
           \<and> process_items env 0 urls st = (None, st1)"
proof (cases "snd f")
  case NotAFile
  with assms show ?thesis by (simp add: process_file_def)
next
  case Unreadable
  with assms show ?thesis by (simp add: process_file_def)
next
  case (Readable tx)
  show ?thesis
  proof (cases "parse_input_file (env_loads env) tx")
    case (Inl e)
    with Readable assms show ?thesis by (simp add: process_file_def)
  next
    case (Inr urls)
    obtain err st1 where p: "process_items env 0 urls st = (err, st1)"
      by (cases "process_items env 0 urls st")
    have fr: "queue_dir st1 = queue_dir st" "files_processed st1 = files_processed st"
      using process_items_frame [of env 0 urls st] p by simp_all
    have pf: "process_file env f st =
        (if urls = [] then st\<lparr>n_failed := Suc (n_failed st)\<rparr>
         else (case err of
                 Some e \<Rightarrow> st1\<lparr>n_failed := Suc (n_failed st1)\<rparr>
               | None \<Rightarrow>
                   st1\<lparr>queue_dir := filter (\<lambda>g. fst g \<noteq> fst f) (queue_dir st1),
                       files_processed := files_processed st1 @ [fst f]\<rparr>))"
      by (simp add: process_file_def Readable Inr p)
    show ?thesis
    proof (cases "urls = []")
      case True
      with assms show ?thesis unfolding pf by simp
    next
      case False
      show ?thesis
      proof (cases err)
        case (Some e)
        with False fr assms show ?thesis unfolding pf by simp
      next
        case None
        with Readable Inr False p show ?thesis by blast
      qed
    qed
  qed
qed

lemma run_deletes_only_clean:
  assumes "f \<in> set (queue_dir st)"
    and "f \<notin> set (queue_dir (foldl (\<lambda>st g. process_file env g st) st gs))"
    and "\<forall>g \<in> set gs. g \<noteq> f \<longrightarrow> fst g \<noteq> fst f"
  shows "\<exists>tx urls st0 st1. snd f = Readable tx
           \<and> parse_input_file (env_loads env) tx = Inr urls \<and> urls \<noteq> []
           \<and> process_items env 0 urls st0 = (None, st1)"
  using assms
proof (induction gs arbitrary: st)
  case Nil
  then show ?case by simp
next
  case (Cons g gs)
  show ?case
  proof (cases "f \<in> set (queue_dir (process_file env g st))")
    case True
    moreover have "f \<notin> set (queue_dir (foldl (\<lambda>st g. process_file env g st)
                                      (process_file env g st) gs))"
      using Cons.prems(2) by simp
    moreover have "\<forall>g \<in> set gs. g \<noteq> f \<longrightarrow> fst g \<noteq> fst f"
      using Cons.prems(3) by simp
    ultimately show ?thesis by (rule Cons.IH)
  next
    case False
    with Cons.prems(1) have ch: "queue_dir (process_file env g st) \<noteq> queue_dir st" by auto
    with process_file_frame [of st env g]
    have "queue_dir (process_file env g st) = filter (\<lambda>h. fst h \<noteq> fst g) (queue_dir st)"
      by blast
    with False Cons.prems(1) have "fst f = fst g" by auto
    with Cons.prems(3) have "g = f" by auto
    with ch have "queue_dir (process_file env f st) \<noteq> queue_dir st
           \<or> files_processed (process_file env f st) \<noteq> files_processed st"
      by simp
    from process_file_deletes_only_clean [OF this] show ?thesis by blast
  qed
qed

lemma sample_first_file_writes:
  "map (\<lambda>r. (fst r, fst (snd r)))
       (writes (snd (process_items sample_env 0 two_bullet_items (initial_state entries))))
     = [(0, U ''T-hello.md''), (1000000, U ''1T-hello.md'')]"
proof -
  have i: "fetch_count (initial_state entries) = 0" "writes (initial_state entries) = []"
    by (simp_all add: initial_state_def)
  show ?thesis
    using sample_two_bullet_items [of "initial_state entries"]
    by (simp add: i sample_timestamps sample_stamps) (simp add: U_def)
qed

lemma sample_two_file_run:
  "map (\<lambda>r. (fst r, fst (snd r))) (writes (fst (process_queue sample_env (Some two_file_queue))))
     = [(0, U ''T-hello.md''), (1000000, U ''1T-hello.md''), (1000000, U ''1T-hello.md'')]"
proof -
  let ?A = "(U ''a.md'', Readable two_bullets)"
  let ?B = "(U ''b.md'', Readable (U ''https://example.com/c''))"
  let ?s0 = "initial_state two_file_queue"
  define p1 where "p1 = snd (process_items sample_env 0 two_bullet_items ?s0)"
  define s1 where "s1 = p1\<lparr>queue_dir := filter (\<lambda>f. fst f \<noteq> U ''a.md'') (queue_dir p1),
                           files_processed := files_processed p1 @ [U ''a.md'']\<rparr>"
  define p2 where "p2 = snd (process_items sample_env 0 one_url_items s1)"
  define s2 where "s2 = p2\<lparr>queue_dir := filter (\<lambda>f. fst f \<noteq> U ''b.md'') (queue_dir p2),
                           files_processed := files_processed p2 @ [U ''b.md'']\<rparr>"
  have i: "fetch_count ?s0 = 0" by (simp add: initial_state_def)
  have ne1: "two_bullet_items \<noteq> []" by (simp add: two_bullet_items_def)
  have ne2: "one_url_items \<noteq> []" by (simp add: one_url_items_def)
  have f1: "process_file sample_env ?A ?s0 = s1"
    unfolding s1_def p1_def using sample_two_bullet_items [of ?s0]
    by (intro sample_process_file [OF two_bullets_parse ne1]) simp
  have f2: "process_file sample_env ?B s1 = s2"
    unfolding s2_def p2_def using sample_one_url_items [of s1]
    by (intro sample_process_file [OF one_url_parse ne2]) simp
  have w1: "map (\<lambda>r. (fst r, fst (snd r))) (writes s1)
              = [(0, U ''T-hello.md''), (1000000, U ''1T-hello.md'')]"
    using sample_first_file_writes [of two_file_queue] by (simp add: s1_def p1_def)
  have c1: "fetch_count s1 = Suc (Suc 0)"
    using sample_two_bullet_items [of ?s0] by (simp add: s1_def p1_def i)
  have w2: "map (\<lambda>r. (fst r, fst (snd r))) (writes s2)
              = [(0, U ''T-hello.md''), (1000000, U ''1T-hello.md''), (1000000, U ''1T-hello.md'')]"
    using sample_one_url_items [of s1]
    by (simp add: s2_def p2_def w1 c1 sample_timestamps sample_stamps) (simp add: U_def)
  have q: "queue_files two_file_queue = [?A, ?B]"
    by (simp add: queue_files_def two_file_queue_def U_def)
  have "fst (process_queue sample_env (Some two_file_queue)) = s2"
    by (simp add: process_queue_def q Let_def f1 f2)
  then show ?thesis by (simp add: w2)
qed

section \<open>Claims on the queue runner\<close>

text \<open>
  C9, as the code has it. A queue file that is unreadable, or whose parsing yields no URL,
  changes nothing but the failure counter, which it raises by one. At the end of the run
  such a file is still in the queue directory, it is not among the processed files, the
  failure counter is at least the number of such files, and the exit status is 1. A file
  is deleted, or listed as processed, only when it was read, its parsing gave at least one
  item, and the loop over its items ended without an exception.
\<close>

theorem failed_file_stays_in_queue:
  "(snd f = Unreadable
      \<or> (\<exists>tx. snd f = Readable tx \<and> parse_input_file (env_loads env) tx = Inr [])
    \<longrightarrow> process_file env f st = st\<lparr>n_failed := Suc (n_failed st)\<rparr>)
   \<and> (distinct (map fst entries) \<and> f \<in> set entries \<and> fst f \<noteq> U ''.gitkeep''
       \<and> (snd f = Unreadable
           \<or> (\<exists>tx. snd f = Readable tx \<and> parse_input_file (env_loads env) tx = Inr []))
    \<longrightarrow> f \<in> set (queue_dir (fst (process_queue env (Some entries))))
        \<and> fst f \<notin> set (files_processed (fst (process_queue env (Some entries))))
        \<and> snd (process_queue env (Some entries)) = 1)
   \<and> length (filter (\<lambda>f. snd f = Unreadable
                 \<or> (\<exists>tx. snd f = Readable tx \<and> parse_input_file (env_loads env) tx = Inr []))
               (queue_files entries))
       \<le> n_failed (fst (process_queue env (Some entries)))
   \<and> (queue_dir (process_file env f st) \<noteq> queue_dir st
        \<or> files_processed (process_file env f st) \<noteq> files_processed st
    \<longrightarrow> (\<exists>tx urls st1. snd f = Readable tx
           \<and> parse_input_file (env_loads env) tx = Inr urls \<and> urls \<noteq> []
           \<and> process_items env 0 urls st = (None, st1)))
   \<and> (distinct (map fst entries) \<and> f \<in> set entries
        \<and> f \<notin> set (queue_dir (fst (process_queue env (Some entries))))
    \<longrightarrow> (\<exists>tx urls st0 st1. snd f = Readable tx
           \<and> parse_input_file (env_loads env) tx = Inr urls \<and> urls \<noteq> []
           \<and> process_items env 0 urls st0 = (None, st1)))"
proof (intro conjI impI)
  assume "queue_dir (process_file env f st) \<noteq> queue_dir st
        \<or> files_processed (process_file env f st) \<noteq> files_processed st"
  then show "\<exists>tx urls st1. snd f = Readable tx
           \<and> parse_input_file (env_loads env) tx = Inr urls \<and> urls \<noteq> []
           \<and> process_items env 0 urls st = (None, st1)"
    by (rule process_file_deletes_only_clean)
next
  assume d: "distinct (map fst entries) \<and> f \<in> set entries
        \<and> f \<notin> set (queue_dir (fst (process_queue env (Some entries))))"
  have ne: "queue_files entries \<noteq> []"
  proof
    assume "queue_files entries = []"
    then have "queue_dir (fst (process_queue env (Some entries))) = entries"
      by (simp add: process_queue_def initial_state_def)
    with d show False by simp
  qed
  have a: "f \<in> set (queue_dir (initial_state entries))"
    using d by (simp add: initial_state_def)
  have b: "f \<notin> set (queue_dir (foldl (\<lambda>st g. process_file env g st) (initial_state entries)
                                   (queue_files entries)))"
    using d ne by (simp add: process_queue_def Let_def)
  have c: "\<forall>g \<in> set (queue_files entries). g \<noteq> f \<longrightarrow> fst g \<noteq> fst f"
    using d by (intro distinct_names_separate) simp_all
  show "\<exists>tx urls st0 st1. snd f = Readable tx
           \<and> parse_input_file (env_loads env) tx = Inr urls \<and> urls \<noteq> []
           \<and> process_items env 0 urls st0 = (None, st1)"
    by (rule run_deletes_only_clean [OF a b c])
next
  assume "snd f = Unreadable
      \<or> (\<exists>tx. snd f = Readable tx \<and> parse_input_file (env_loads env) tx = Inr [])"
  then show "process_file env f st = st\<lparr>n_failed := Suc (n_failed st)\<rparr>"
    by (rule process_file_nothing)
next
  let ?bad = "\<lambda>f. snd f = Unreadable
                 \<or> (\<exists>tx. snd f = Readable tx \<and> parse_input_file (env_loads env) tx = Inr [])"
  let ?run = "foldl (\<lambda>st g. process_file env g st) (initial_state entries) (queue_files entries)"
  have count: "length (filter ?bad (queue_files entries)) \<le> n_failed ?run"
    using run_counts_failed_files [of "initial_state entries" env "queue_files entries"]
    by (simp add: initial_state_def)
  show "length (filter ?bad (queue_files entries))
          \<le> n_failed (fst (process_queue env (Some entries)))"
    using count by (simp add: process_queue_def Let_def)
  assume h: "distinct (map fst entries) \<and> f \<in> set entries \<and> fst f \<noteq> U ''.gitkeep'' \<and> ?bad f"
  then have bad: "?bad f" by blast
  then have "snd f \<noteq> NotAFile" by auto
  with h have q: "f \<in> set (queue_files entries)" by (simp add: queue_files_def)
  then have ne: "queue_files entries \<noteq> []" by auto
  have sep: "\<forall>g \<in> set (queue_files entries). g \<noteq> f \<longrightarrow> fst g \<noteq> fst f"
    using h by (intro distinct_names_separate) simp_all
  have keep: "f \<in> set (queue_dir ?run) \<and> fst f \<notin> set (files_processed ?run)"
    using h by (intro run_keeps_failed_file [OF bad sep]) (simp_all add: initial_state_def)
  have "f \<in> set (filter ?bad (queue_files entries))"
    using q bad by (simp only: set_filter mem_Collect_eq simp_thms)
  then have "0 < length (filter ?bad (queue_files entries))"
    by (rule length_pos_if_in_set)
  then have "1 \<le> length (filter ?bad (queue_files entries))" by linarith
  with count have pos: "0 < n_failed ?run" by linarith
  show "f \<in> set (queue_dir (fst (process_queue env (Some entries))))"
    and "fst f \<notin> set (files_processed (fst (process_queue env (Some entries))))"
    and "snd (process_queue env (Some entries)) = 1"
    using keep pos ne by (simp_all add: process_queue_def Let_def)
qed

theorem failed_file_stays_in_queue_witness:
  "(snd (U ''empty.md'', Readable (U ''nothing here'')) = Unreadable
      \<or> (\<exists>tx. snd (U ''empty.md'', Readable (U ''nothing here'')) = Readable tx
               \<and> parse_input_file (env_loads sample_env) tx = Inr []))
   \<and> distinct (map fst failing_queue)
   \<and> (U ''empty.md'', Readable (U ''nothing here'')) \<in> set failing_queue
   \<and> fst (U ''empty.md'', Readable (U ''nothing here'')) \<noteq> U ''.gitkeep''
   \<and> process_file sample_env (U ''empty.md'', Readable (U ''nothing here''))
         (initial_state failing_queue)
       = (initial_state failing_queue)\<lparr>n_failed := Suc (n_failed (initial_state failing_queue))\<rparr>
   \<and> (U ''empty.md'', Readable (U ''nothing here''))
        \<in> set (queue_dir (fst (process_queue sample_env (Some failing_queue))))
   \<and> fst (U ''empty.md'', Readable (U ''nothing here''))
        \<notin> set (files_processed (fst (process_queue sample_env (Some failing_queue))))
   \<and> snd (process_queue sample_env (Some failing_queue)) = 1
   \<and> files_processed (process_file sample_env (U ''b.md'', Readable (U ''https://example.com/c''))
                         (initial_state one_file_queue))
       \<noteq> files_processed (initial_state one_file_queue)
   \<and> (\<exists>tx urls st1. snd (U ''b.md'', Readable (U ''https://example.com/c'')) = Readable tx
           \<and> parse_input_file (env_loads sample_env) tx = Inr urls \<and> urls \<noteq> []
           \<and> process_items sample_env 0 urls (initial_state one_file_queue) = (None, st1))
   \<and> distinct (map fst one_file_queue)
   \<and> (U ''b.md'', Readable (U ''https://example.com/c'')) \<in> set one_file_queue
   \<and> (U ''b.md'', Readable (U ''https://example.com/c''))
        \<notin> set (queue_dir (fst (process_queue sample_env (Some one_file_queue))))
   \<and> (\<exists>tx urls st0 st1. snd (U ''b.md'', Readable (U ''https://example.com/c'')) = Readable tx
           \<and> parse_input_file (env_loads sample_env) tx = Inr urls \<and> urls \<noteq> []
           \<and> process_items sample_env 0 urls st0 = (None, st1))"
proof -
  have a: "snd (U ''empty.md'', Readable (U ''nothing here'')) = Unreadable
      \<or> (\<exists>tx. snd (U ''empty.md'', Readable (U ''nothing here'')) = Readable tx
               \<and> parse_input_file (env_loads sample_env) tx = Inr [])"
    using nothing_here_has_no_url by (simp add: sample_env_def)
  have b: "distinct (map fst failing_queue)"
    "(U ''empty.md'', Readable (U ''nothing here'')) \<in> set failing_queue"
    "fst (U ''empty.md'', Readable (U ''nothing here'')) \<noteq> U ''.gitkeep''"
    by (simp_all add: failing_queue_def U_def)
  note T = failed_file_stays_in_queue [of "(U ''empty.md'', Readable (U ''nothing here''))"
             sample_env "initial_state failing_queue" failing_queue]
  note r1 = T [THEN conjunct1, THEN mp, OF a]
  note r2 = T [THEN conjunct2, THEN conjunct1, THEN mp, OF conjI [OF b(1) conjI [OF b(2) conjI [OF b(3) a]]]]
  let ?B = "(U ''b.md'', Readable (U ''https://example.com/c''))"
  have ne: "one_url_items \<noteq> []" by (simp add: one_url_items_def)
  have pf: "process_file sample_env ?B st
           = (snd (process_items sample_env 0 one_url_items st))
               \<lparr>queue_dir := filter (\<lambda>f. fst f \<noteq> U ''b.md'')
                                (queue_dir (snd (process_items sample_env 0 one_url_items st))),
                files_processed := files_processed (snd (process_items sample_env 0 one_url_items st))
                                   @ [U ''b.md'']\<rparr>" for st
    using sample_one_url_items [of st]
    by (intro sample_process_file [OF one_url_parse ne]) simp
  have c: "files_processed (process_file sample_env ?B (initial_state one_file_queue))
             \<noteq> files_processed (initial_state one_file_queue)"
    unfolding pf using sample_one_url_items [of "initial_state one_file_queue"] by simp
  have d: "distinct (map fst one_file_queue)" "?B \<in> set one_file_queue"
    by (simp_all add: one_file_queue_def)
  have q: "queue_files one_file_queue = [?B]"
    by (simp add: queue_files_def one_file_queue_def U_def)
  have "queue_dir (fst (process_queue sample_env (Some one_file_queue))) = []"
    using sample_one_url_items [of "initial_state one_file_queue"]
    by (simp add: process_queue_def q Let_def pf) (simp add: initial_state_def one_file_queue_def)
  then have e: "?B \<notin> set (queue_dir (fst (process_queue sample_env (Some one_file_queue))))"
    by simp
  note T2 = failed_file_stays_in_queue [of ?B sample_env "initial_state one_file_queue"
              one_file_queue]
  note r4 = T2 [THEN conjunct2, THEN conjunct2, THEN conjunct2, THEN conjunct1, THEN mp,
                OF disjI2 [OF c]]
  note r5 = T2 [THEN conjunct2, THEN conjunct2, THEN conjunct2, THEN conjunct2, THEN mp,
                OF conjI [OF d(1) conjI [OF d(2) e]]]
  show ?thesis
    by (intro conjI) (rule a b r1 r2 [THEN conjunct1] r2 [THEN conjunct2, THEN conjunct1]
          r2 [THEN conjunct2, THEN conjunct2] c r4 d e r5)+
qed

text \<open>
  C9 as stated fails: after a run over a queue that holds a file without any URL and a file
  that cannot be read, both are counted as failures and both are still in the queue
  directory; no file was processed.
\<close>

theorem failed_file_stays_in_queue_counterexample:
  "parse_input_file (env_loads sample_env) (U ''nothing here'') = Inr []
   \<and> process_queue sample_env (Some failing_queue)
       = (\<lparr>n_success = 0, n_failed = 2, files_processed = [], queue_dir = failing_queue,
           writes = [], fetch_count = 0\<rparr>, 1)"
proof -
  have a: "parse_input_file (env_loads sample_env) (U ''nothing here'') = Inr []"
    using nothing_here_has_no_url by (simp add: sample_env_def)
  have q: "queue_files failing_queue = failing_queue"
    by (simp add: queue_files_def failing_queue_def U_def)
  have f1: "process_file sample_env (U ''empty.md'', Readable (U ''nothing here'')) st
            = st\<lparr>n_failed := Suc (n_failed st)\<rparr>" for st
    using a by (simp add: process_file_def)
  have f2: "process_file sample_env (U ''bad.bin'', Unreadable) st
            = st\<lparr>n_failed := Suc (n_failed st)\<rparr>" for st
    by (simp add: process_file_def)
  have run: "foldl (\<lambda>st g. process_file sample_env g st) (initial_state failing_queue)
               failing_queue = (initial_state failing_queue)\<lparr>n_failed := 2\<rparr>"
    by (subst (2) failing_queue_def) (simp add: f1 f2 initial_state_def)
  have ne: "failing_queue \<noteq> []" by (simp add: failing_queue_def)
  have pq: "process_queue sample_env (Some failing_queue)
              = ((initial_state failing_queue)\<lparr>n_failed := 2\<rparr>, 1)"
    using ne by (simp add: process_queue_def q run Let_def)
  show ?thesis
    unfolding pq using a by (simp add: initial_state_def)
qed

text \<open>
  C10, as the code has it. The timestamp of the item at index \<open>i\<close> is the time read when that
  item is written plus \<open>i\<close> seconds, so the timestamps of the items at index 0 and 1 are one
  second apart plus the time that passed between the two readings of the clock. One
  round of the loop writes at most one file, with that timestamp. When the clock never
  goes back and the compact form of a time is a prefix of that of another time only within
  the same second, the files written for one queue file have timestamps at least one second
  apart, each later than the one before, and their names differ from each other, whatever
  the titles. Nothing of this kind holds across the queue files of a run.
\<close>

theorem batch_timestamps:
  "item_timestamp env i k = clock_at env k + int i * 1000000
   \<and> item_timestamp env (Suc 0) k' - item_timestamp env 0 k
       = 1000000 + (clock_at env k' - clock_at env k)
   \<and> (writes (snd (process_item env i item st)) = writes st
       \<or> (\<exists>name body. writes (snd (process_item env i item st))
             = writes st @ [(clock_at env (fetch_count st) + int i * 1000000, name, body)]))
   \<and> (mono (clock_at env)
       \<and> (\<forall>t t'. prefix (strftime_compact (env_fmt env) t) (strftime_compact (env_fmt env) t')
                  \<longrightarrow> t div 1000000 = t' div 1000000)
      \<longrightarrow> (\<exists>news. writes (snd (process_items env 0 items st)) = writes st @ news
             \<and> sorted_wrt (\<lambda>a b. fst a + 1000000 \<le> fst b) news
             \<and> distinct (map (\<lambda>r. fst (snd r)) news)))"
proof (intro conjI impI)
  show "item_timestamp env i k = clock_at env k + int i * 1000000"
    by (rule item_timestamp_eq)
next
  show "item_timestamp env (Suc 0) k' - item_timestamp env 0 k
          = 1000000 + (clock_at env k' - clock_at env k)"
    by (simp add: item_timestamp_eq)
next
  show "writes (snd (process_item env i item st)) = writes st
       \<or> (\<exists>name body. writes (snd (process_item env i item st))
             = writes st @ [(clock_at env (fetch_count st) + int i * 1000000, name, body)])"
    using process_item_writes [of env i item st] unfolding item_timestamp_eq by blast
next
  assume h: "mono (clock_at env)
       \<and> (\<forall>t t'. prefix (strftime_compact (env_fmt env) t) (strftime_compact (env_fmt env) t')
                  \<longrightarrow> t div 1000000 = t' div 1000000)"
  show "\<exists>news. writes (snd (process_items env 0 items st)) = writes st @ news
             \<and> sorted_wrt (\<lambda>a b. fst a + 1000000 \<le> fst b) news
             \<and> distinct (map (\<lambda>r. fst (snd r)) news)"
    by (rule batch_names_distinct [OF h [THEN conjunct1] h [THEN conjunct2]])
qed

text \<open>
  A run of the theorem: the clock of the sample run never goes back, and the file with two
  bullets gives two articles with the same title, written with the timestamps 0 and one
  second under two names.
\<close>

theorem batch_timestamps_witness:
  "mono (clock_at sample_env)
   \<and> map (\<lambda>r. (fst r, fst (snd r)))
         (writes (snd (process_items sample_env 0 two_bullet_items (initial_state two_file_queue))))
       = [(0, U ''T-hello.md''), (1000000, U ''1T-hello.md'')]
   \<and> (\<exists>news. writes (snd (process_items sample_env 0 two_bullet_items (initial_state two_file_queue)))
               = writes (initial_state two_file_queue) @ news
             \<and> sorted_wrt (\<lambda>a b. fst a + 1000000 \<le> fst b) news
             \<and> distinct (map (\<lambda>r. fst (snd r)) news))"
proof -
  have s: "\<forall>t t'. prefix (strftime_compact (env_fmt sample_env) t)
                         (strftime_compact (env_fmt sample_env) t')
                  \<longrightarrow> t div 1000000 = t' div 1000000"
    using unary_fmt_separates by (simp add: sample_env_fields)
  note T = batch_timestamps [of sample_env 0 0 0 "hd two_bullet_items" "initial_state two_file_queue"
             two_bullet_items]
  note r = T [THEN conjunct2, THEN conjunct2, THEN conjunct2, THEN mp,
              OF conjI [OF sample_clock_mono s]]
  show ?thesis
    by (intro conjI) (rule sample_clock_mono sample_first_file_writes r)+
qed

text \<open>
  C10 as stated fails. In the sample run the clock never goes back and every article has
  the same title. The first queue file holds two URLs and the second one URL. The second
  item of the first file is written at time 0 with one second added; the item of the second
  file is written one second later with nothing added. Both are written under the same
  name.
\<close>

theorem batch_timestamps_counterexample:
  "mono (clock_at sample_env)
   \<and> map (\<lambda>r. (fst r, fst (snd r))) (writes (fst (process_queue sample_env (Some two_file_queue))))
       = [(0, U ''T-hello.md''), (1000000, U ''1T-hello.md''), (1000000, U ''1T-hello.md'')]
   \<and> \<not> distinct (map (\<lambda>r. fst (snd r))
                   (writes (fst (process_queue sample_env (Some two_file_queue)))))"
proof -
  let ?w = "writes (fst (process_queue sample_env (Some two_file_queue)))"
  have "map snd (map (\<lambda>r. (fst r, fst (snd r))) ?w)
          = [U ''T-hello.md'', U ''1T-hello.md'', U ''1T-hello.md'']"
    unfolding sample_two_file_run by simp
  then have "map (\<lambda>r. fst (snd r)) ?w = [U ''T-hello.md'', U ''1T-hello.md'', U ''1T-hello.md'']"
    by (simp add: comp_def)
  then have "\<not> distinct (map (\<lambda>r. fst (snd r)) ?w)" by simp
  with sample_clock_mono sample_two_file_run show ?thesis by simp
qed

end
